theory Spec2Isabelle
  imports Main "HOL-Library.AList"
begin

section \<open>The bookmark record\<close>

text \<open>
  The Go struct \<^verbatim>\<open>Bookmark\<close> has six fields. Its \<^verbatim>\<open>Bookmarks\<close> field holds
  bookmarks again, so the type is recursive and is a datatype with one constructor
  and the field names as selectors. The two \<^verbatim>\<open>*time.Time\<close> fields are optional
  instants; \<^verbatim>\<open>time.Unix(ts, 0)\<close> is the only way the program makes one, so an
  instant is the number of seconds since 1970-01-01T00:00:00Z and \<open>None\<close> is the
  nil pointer.
\<close>

datatype Bookmark =
  Bookmark (Title: string) (URL: string) (Parent: string)
    (Bookmarks: "Bookmark list") (AddAt: "int option") (UpdateAt: "int option")

text \<open>The zero record \<^verbatim>\<open>Bookmark{}\<close>.\<close>

definition emptyBookmark :: Bookmark where
  "emptyBookmark = Bookmark [] [] [] [] None None"

text \<open>\<^verbatim>\<open>parent.Bookmarks = append(parent.Bookmarks, c)\<close>\<close>

definition appendChild :: "Bookmark \<Rightarrow> Bookmark \<Rightarrow> Bookmark" where
  "appendChild parent c =
     Bookmark (Title parent) (URL parent) (Parent parent)
       (Bookmarks parent @ [c]) (AddAt parent) (UpdateAt parent)"

section \<open>Timestamps\<close>

text \<open>
  \<^verbatim>\<open>parseTime\<close> calls \<^verbatim>\<open>strconv.ParseInt(timestamp, 10, 64)\<close> of the Go library.
  The library function is written out for base 10 and 64 bits: an optional sign,
  then \<^verbatim>\<open>ParseUint\<close> on the rest, which reads digit after digit and stops with
  a range error as soon as the number leaves 64 bits, and with a syntax error at the
  first byte that is no decimal digit (or on the empty string). The accumulator of
  the library is a \<^verbatim>\<open>uint64\<close>; here it is a natural number and the two overflow
  tests of the library (\<^verbatim>\<open>n >= cutoff\<close> before the multiplication,
  \<^verbatim>\<open>n1 < n || n1 > maxVal\<close> after the addition) are the two comparisons with
  \<open>maxUint64\<close>.
\<close>

datatype numError = ErrSyntax | ErrRange

definition isDigit :: "char \<Rightarrow> bool" where
  "isDigit c \<longleftrightarrow> 48 \<le> (of_char c :: nat) \<and> (of_char c :: nat) \<le> 57"

definition maxUint64 :: nat where
  "maxUint64 = 18446744073709551615"

fun parseUintLoop :: "nat \<Rightarrow> string \<Rightarrow> numError + nat" where
  "parseUintLoop n [] = Inr n"
| "parseUintLoop n (c # cs) =
     (if \<not> isDigit c then Inl ErrSyntax
      else if n \<ge> maxUint64 div 10 + 1 then Inl ErrRange
      else if n * 10 + (of_char c - 48) > maxUint64 then Inl ErrRange
      else parseUintLoop (n * 10 + (of_char c - 48)) cs)"

definition ParseUint :: "string \<Rightarrow> numError + nat" where
  "ParseUint s = (if s = [] then Inl ErrSyntax else parseUintLoop 0 s)"

definition ParseInt :: "string \<Rightarrow> numError + int" where
  "ParseInt s =
     (if s = [] then Inl ErrSyntax
      else let neg = (hd s = CHR ''-'');
               s1 = (if hd s = CHR ''+'' \<or> hd s = CHR ''-'' then tl s else s)
           in case ParseUint s1 of
                Inl ErrSyntax \<Rightarrow> Inl ErrSyntax
              | r \<Rightarrow>
                  (let un = (case r of Inl _ \<Rightarrow> maxUint64 | Inr n \<Rightarrow> n)
                   in if \<not> neg \<and> un \<ge> 9223372036854775808 then Inl ErrRange
                      else if neg \<and> un > 9223372036854775808 then Inl ErrRange
                      else Inr (if neg then - int un else int un)))"

text \<open>What the program prints besides its result.\<close>

datatype event =
    TimestampError string numError
      \<comment> \<open>\<^verbatim>\<open>error parsing timestamp: ...\<close>, with the attribute and the library's error\<close>
  | RootNotFound
      \<comment> \<open>\<^verbatim>\<open>root folder not found\<close>\<close>

text \<open>
  \<^verbatim>\<open>parseTime\<close> returns the lines it prints and the instant, \<open>None\<close> for the
  nil pointer.
\<close>

definition parseTime :: "string \<Rightarrow> event list \<times> int option" where
  "parseTime timestamp =
     (if length timestamp = 0 then ([], None)
      else case ParseInt timestamp of
             Inl err \<Rightarrow> ([TimestampError timestamp err], None)
           | Inr ts \<Rightarrow> ([], Some ts))"

section \<open>The parsed document\<close>

text \<open>
  The extractor receives a document already parsed by the \<^verbatim>\<open>goquery\<close> library and
  only navigates it. A node is as in the library's \<^verbatim>\<open>html.Node\<close>: its type, its
  data (the tag of an element in lower case, the characters of a text), its
  attributes (keys in lower case) and its children. The pointers to parent and
  siblings of the library are not stored: a node of the document is named by the
  path that leads to it from the document node (the positions of the children to
  follow), and a selection is the list of the paths of its nodes.
\<close>

datatype NodeType = ErrorNode | TextNode | DocumentNode | ElementNode | CommentNode | DoctypeNode

datatype Node =
  Node (Type: NodeType) (Data: string) (Attr: "(string \<times> string) list") (Child: "Node list")

type_synonym path = "nat list"

type_synonym Selection = "path list"

fun nodeAt :: "Node \<Rightarrow> path \<Rightarrow> Node option" where
  "nodeAt n [] = Some n"
| "nodeAt n (i # p) = (if i < length (Child n) then nodeAt (Child n ! i) p else None)"

text \<open>The paths of all the nodes below a node, in document order.\<close>

fun descend :: "Node \<Rightarrow> path list" and descendList :: "nat \<Rightarrow> Node list \<Rightarrow> path list" where
  "descend (Node ty d a cs) = descendList 0 cs"
| "descendList i [] = []"
| "descendList i (c # cs) = [i] # map ((#) i) (descend c) @ descendList (Suc i) cs"

text \<open>
  A selector that is a tag name, as in \<^verbatim>\<open>Find("H3")\<close> or \<^verbatim>\<open>Is("DL")\<close>, matches
  the elements with that tag; the library compares in lower case, so the tags are
  written in lower case below.
\<close>

definition isElement :: "Node \<Rightarrow> string \<Rightarrow> path \<Rightarrow> bool" where
  "isElement doc tag p =
     (case nodeAt doc p of None \<Rightarrow> False | Some n \<Rightarrow> Type n = ElementNode \<and> Data n = tag)"

definition Find :: "Node \<Rightarrow> string \<Rightarrow> Selection" where
  "Find doc tag = filter (isElement doc tag) (descend doc)"

definition Is :: "Node \<Rightarrow> Selection \<Rightarrow> string \<Rightarrow> bool" where
  "Is doc sel tag = list_ex (isElement doc tag) sel"

text \<open>Those of the positions \<open>js\<close> at which \<open>par\<close> has an element as child.\<close>

definition elementIndices :: "Node \<Rightarrow> nat list \<Rightarrow> nat list" where
  "elementIndices par js = filter (\<lambda>j. Type (Child par ! j) = ElementNode) js"

text \<open>
  \<^verbatim>\<open>Next\<close> and \<^verbatim>\<open>Prev\<close>: the nearest sibling after (before) the node that is an
  element. \<^verbatim>\<open>Parent\<close>: the parent, when it is an element. \<^verbatim>\<open>Children\<close>: the
  children that are elements. Each is empty on the empty selection.
\<close>

definition nextOf :: "Node \<Rightarrow> path \<Rightarrow> Selection" where
  "nextOf doc p =
     (if p = [] then []
      else case nodeAt doc (butlast p) of
             None \<Rightarrow> []
           | Some par \<Rightarrow>
               (case elementIndices par [Suc (last p)..<length (Child par)] of
                  [] \<Rightarrow> []
                | j # _ \<Rightarrow> [butlast p @ [j]]))"

definition prevOf :: "Node \<Rightarrow> path \<Rightarrow> Selection" where
  "prevOf doc p =
     (if p = [] then []
      else case nodeAt doc (butlast p) of
             None \<Rightarrow> []
           | Some par \<Rightarrow>
               (case rev (elementIndices par [0..<min (last p) (length (Child par))]) of
                  [] \<Rightarrow> []
                | j # _ \<Rightarrow> [butlast p @ [j]]))"

definition parentOf :: "Node \<Rightarrow> path \<Rightarrow> Selection" where
  "parentOf doc p =
     (if p = [] then []
      else case nodeAt doc (butlast p) of
             None \<Rightarrow> []
           | Some par \<Rightarrow> if Type par = ElementNode then [butlast p] else [])"

definition childrenOf :: "Node \<Rightarrow> path \<Rightarrow> Selection" where
  "childrenOf doc p =
     (case nodeAt doc p of
        None \<Rightarrow> []
      | Some n \<Rightarrow> map (\<lambda>j. p @ [j]) (elementIndices n [0..<length (Child n)]))"

definition Next :: "Node \<Rightarrow> Selection \<Rightarrow> Selection" where
  "Next doc sel = concat (map (nextOf doc) sel)"

definition Prev :: "Node \<Rightarrow> Selection \<Rightarrow> Selection" where
  "Prev doc sel = concat (map (prevOf doc) sel)"

definition ParentSel :: "Node \<Rightarrow> Selection \<Rightarrow> Selection" where
  "ParentSel doc sel = concat (map (parentOf doc) sel)"

definition ChildrenSel :: "Node \<Rightarrow> Selection \<Rightarrow> Selection" where
  "ChildrenSel doc sel = concat (map (childrenOf doc) sel)"

definition ChildrenFiltered :: "Node \<Rightarrow> Selection \<Rightarrow> string \<Rightarrow> Selection" where
  "ChildrenFiltered doc sel tag = filter (isElement doc tag) (ChildrenSel doc sel)"

definition First :: "Selection \<Rightarrow> Selection" where
  "First sel = take 1 sel"

text \<open>\<^verbatim>\<open>Text\<close>: the text nodes at and below the nodes of the selection, joined.\<close>

fun textOf :: "Node \<Rightarrow> string" where
  "textOf (Node ty d a cs) = (if ty = TextNode then d else []) @ concat (map textOf cs)"

definition Text :: "Node \<Rightarrow> Selection \<Rightarrow> string" where
  "Text doc sel = concat (map (\<lambda>p. case nodeAt doc p of None \<Rightarrow> [] | Some n \<Rightarrow> textOf n) sel)"

text \<open>
  \<^verbatim>\<open>AttrOr\<close>: the first attribute with that key of the first node of the
  selection, the default when there is none.
\<close>

definition AttrOr :: "Node \<Rightarrow> Selection \<Rightarrow> string \<Rightarrow> string \<Rightarrow> string" where
  "AttrOr doc sel key dflt =
     (case sel of
        [] \<Rightarrow> dflt
      | p # _ \<Rightarrow>
          (case nodeAt doc p of
             None \<Rightarrow> dflt
           | Some n \<Rightarrow> (case map_of (Attr n) key of None \<Rightarrow> dflt | Some v \<Rightarrow> v)))"

section \<open>The extractor\<close>

text \<open>
  The record made for a link element: the struct literal in the inner callback of
  \<^verbatim>\<open>parseBookmarks\<close>. Its fields are evaluated in the order written, so the
  line printed for \<^verbatim>\<open>add_date\<close> comes before the one for \<^verbatim>\<open>last_modified\<close>.
\<close>

definition linkOf :: "Node \<Rightarrow> Selection \<Rightarrow> event list \<times> Bookmark" where
  "linkOf doc aNode =
     (let (e1, addAt) = parseTime (AttrOr doc aNode ''add_date'' []);
          (e2, updateAt) = parseTime (AttrOr doc aNode ''last_modified'' [])
      in (e1 @ e2,
          Bookmark (Text doc aNode) (AttrOr doc aNode ''href'' []) [] [] addAt updateAt))"

text \<open>
  \<^verbatim>\<open>dlNode.ChildrenFiltered("DT").Each(...)\<close>: a \<^verbatim>\<open>DT\<close> whose first element
  child is an \<^verbatim>\<open>A\<close> gives a link record, any other \<^verbatim>\<open>DT\<close> is passed over.
\<close>

fun eachDT :: "Node \<Rightarrow> path list \<Rightarrow> event list \<times> Bookmark list" where
  "eachDT doc [] = ([], [])"
| "eachDT doc (dtNode # rest) =
     (let aNode = First (ChildrenSel doc [dtNode]) in
      if Is doc aNode ''a'' then
        (let (e, bookmark) = linkOf doc aNode;
             (es, bookmarks) = eachDT doc rest
         in (e @ es, bookmark # bookmarks))
      else eachDT doc rest)"

text \<open>The body of the callback for one \<^verbatim>\<open>H3\<close> element, the element at path \<open>h\<close>.\<close>

definition folderOf :: "Node \<Rightarrow> path \<Rightarrow> event list \<times> Bookmark" where
  "folderOf doc h =
     (let header = [h];
          (e1, addAt) = parseTime (AttrOr doc header ''add_date'' []);
          (e2, updateAt) = parseTime (AttrOr doc header ''last_modified'' []);
          dlNode = Next doc header;
          (e3, bookmarks) =
             (if Is doc dlNode ''dl'' then eachDT doc (ChildrenFiltered doc dlNode ''dt'')
              else ([], []));
          parentDL = ParentSel doc (ParentSel doc header);
          parent =
             (if Is doc parentDL ''dl'' \<and> Is doc (Prev doc parentDL) ''h3''
              then Text doc (Prev doc parentDL) else [])
      in (e1 @ e2 @ e3, Bookmark (Text doc header) [] parent bookmarks addAt updateAt))"

text \<open>
  \<^verbatim>\<open>parseBookmarks\<close> as in the first two programs of the source file: the records
  are appended to a slice, one for each \<^verbatim>\<open>H3\<close> in document order.
\<close>

fun eachH3 :: "Node \<Rightarrow> path list \<Rightarrow> event list \<times> Bookmark list" where
  "eachH3 doc [] = ([], [])"
| "eachH3 doc (h # rest) =
     (let (e, bookmark) = folderOf doc h;
          (es, bookmarks) = eachH3 doc rest
      in (e @ es, bookmark # bookmarks))"

definition parseBookmarks :: "Node \<Rightarrow> event list \<times> Bookmark list" where
  "parseBookmarks doc = eachH3 doc (Find doc ''h3'')"

text \<open>
  \<^verbatim>\<open>parseBookmarks\<close> as in the third program of the source file: each record is
  stored in a Go map under its title (\<^verbatim>\<open>bookmarkMap[bookmark.Title] = &bookmark\<close>,
  so a later record with the same title replaces the earlier one), and the slice
  returned is filled by \<^verbatim>\<open>for _, bookmark := range bookmarkMap\<close>. Go leaves the
  order of that loop unspecified and changes it from one run to the next. The map is
  an association list; the order in which the loop visits the keys is an argument
  \<open>order\<close> of the model, and \<open>rangeOrder\<close> says which arguments are orders the
  loop can take: the keys of the map, each once.
\<close>

fun mapH3 ::
  "Node \<Rightarrow> path list \<Rightarrow> (string \<times> Bookmark) list \<Rightarrow> event list \<times> (string \<times> Bookmark) list" where
  "mapH3 doc [] bookmarkMap = ([], bookmarkMap)"
| "mapH3 doc (h # rest) bookmarkMap =
     (let (e, bookmark) = folderOf doc h;
          (es, m) = mapH3 doc rest (AList.update (Title bookmark) bookmark bookmarkMap)
      in (e @ es, m))"

definition rangeOrder :: "(string \<times> Bookmark) list \<Rightarrow> string list \<Rightarrow> bool" where
  "rangeOrder bookmarkMap order \<longleftrightarrow> distinct order \<and> set order = set (map fst bookmarkMap)"

definition parseBookmarksMap :: "string list \<Rightarrow> Node \<Rightarrow> event list \<times> Bookmark list" where
  "parseBookmarksMap order doc =
     (let (es, bookmarkMap) = mapH3 doc (Find doc ''h3'') []
      in (es, List.map_filter (map_of bookmarkMap) order))"

section \<open>The tree builder\<close>

text \<open>
  \<^verbatim>\<open>findRootFolder\<close> returns a pointer to the first element of the slice whose
  \<^verbatim>\<open>Parent\<close> is the empty string, or nil. The pointer is the index of the element.
\<close>

fun findRootFolder :: "Bookmark list \<Rightarrow> nat option" where
  "findRootFolder [] = None"
| "findRootFolder (b # bs) =
     (if Parent b = [] then Some 0 else map_option Suc (findRootFolder bs))"

text \<open>
  \<^verbatim>\<open>buildSubTree\<close> scans the whole slice; every element whose \<^verbatim>\<open>Parent\<close> equals the
  title of \<open>parent\<close> is appended to the children of \<open>parent\<close>, and the function
  calls itself on the element just appended before the scan goes on. The recursion
  has no bound in the source, so the model counts the depth of the calls: with fuel
  \<open>0\<close> a call does not return (\<open>None\<close>), and a call with fuel \<open>Suc n\<close> gives
  fuel \<open>n\<close> to the calls it makes. A run of the program returns \<open>t\<close> when some
  fuel gives \<open>Some t\<close>; it recurses for ever when every fuel gives \<open>None\<close>.

  \<open>scan\<close> is the \<^verbatim>\<open>for i := range bookmarks\<close> loop: \<open>rec\<close> is the recursive
  call, the third argument the part of the slice still to visit.

  The source appends a copy of \<^verbatim>\<open>bookmarks[i]\<close> and then builds below the copy in
  place; the model builds below the copy first and appends the result, which is the
  same tree. The records of the slice are read only, with one exception: the root
  is changed in place (\<^verbatim>\<open>root\<close> points into the slice). The scan copies the root
  only below a node whose title is empty, and then the recursion does not end in
  the source nor in the model (the root is found again below its own copy).
  A copy shares the array of its children with the record it was copied from; when
  that array has room, the children appended to a copy are written after the
  children the record holds, where a second copy of the same record writes the same
  children again, so each copy ends with the children the model gives it.
\<close>

primrec scan ::
  "(Bookmark \<Rightarrow> Bookmark option) \<Rightarrow> Bookmark \<Rightarrow> Bookmark list \<Rightarrow> Bookmark option" where
  "scan rec parent [] = Some parent"
| "scan rec parent (b # rest) =
     (if Parent b = Title parent then
        (case rec b of
           None \<Rightarrow> None
         | Some c \<Rightarrow> scan rec (appendChild parent c) rest)
      else scan rec parent rest)"

primrec buildSubTree :: "nat \<Rightarrow> Bookmark \<Rightarrow> Bookmark list \<Rightarrow> Bookmark option" where
  "buildSubTree 0 parent bookmarks = None"
| "buildSubTree (Suc n) parent bookmarks =
     scan (\<lambda>b. buildSubTree n b bookmarks) parent bookmarks"

text \<open>
  \<^verbatim>\<open>buildTree\<close>: the lines printed and the tree returned (\<open>None\<close>: the call
  did not return within the fuel).
\<close>

definition buildTree :: "nat \<Rightarrow> Bookmark list \<Rightarrow> event list \<times> Bookmark option" where
  "buildTree fuel bookmarks =
     (case findRootFolder bookmarks of
        None \<Rightarrow> ([RootNotFound], Some emptyBookmark)
      | Some i \<Rightarrow> ([], buildSubTree fuel (bookmarks ! i) bookmarks))"

section \<open>Serialisation\<close>

text \<open>
  \<^verbatim>\<open>json.Marshal\<close> follows the tags of the struct: \<^verbatim>\<open>title\<close> is always written,
  \<^verbatim>\<open>url\<close> unless it is empty, \<^verbatim>\<open>bookmarks\<close> unless the slice is empty,
  \<^verbatim>\<open>addAt\<close> and \<^verbatim>\<open>updateAt\<close> unless the pointer is nil, and \<^verbatim>\<open>Parent\<close>, tagged
  \<^verbatim>\<open>json:"-"\<close>, never. The fields come in the order of the struct.

  An instant is written as its date and time of day in the local zone of the
  machine, followed by the offset of that zone. \<open>zone\<close> gives the offset in seconds
  east of UTC that the local zone has at an instant. \<open>civil\<close> is the calendar the
  Go library uses (proleptic Gregorian): year, month, day, hour, minute and second
  at UTC of an instant. The library refuses to write a year outside 0 to 9999, and
  then \<^verbatim>\<open>json.Marshal\<close> returns an error (\<open>None\<close>).
\<close>

definition civilFromDays :: "int \<Rightarrow> int \<times> int \<times> int" where
  "civilFromDays days =
     (let z = days + 719468;
          era = z div 146097;
          doe = z mod 146097;
          yoe = (doe - doe div 1460 + doe div 36524 - doe div 146096) div 365;
          doy = doe - (365 * yoe + yoe div 4 - yoe div 100);
          mp = (5 * doy + 2) div 153;
          d = doy - (153 * mp + 2) div 5 + 1;
          m = (if mp < 10 then mp + 3 else mp - 9);
          y = yoe + era * 400 + (if m \<le> 2 then 1 else 0)
      in (y, m, d))"

definition civil :: "int \<Rightarrow> int \<times> int \<times> int \<times> int \<times> int \<times> int" where
  "civil t =
     (let (y, m, d) = civilFromDays (t div 86400); s = t mod 86400
      in (y, m, d, s div 3600, s mod 3600 div 60, s mod 60))"

text \<open>\<open>JTime t z\<close>: the instant \<open>t\<close> written at the offset \<open>z\<close>.\<close>

datatype json =
  JString string | JTime int int | JArray "json list" | JObject "(string \<times> json) list"

definition marshalTime ::
  "(int \<Rightarrow> int) \<Rightarrow> string \<Rightarrow> int option \<Rightarrow> (string \<times> json) list option" where
  "marshalTime zone key t =
     (case t of
        None \<Rightarrow> Some []
      | Some ts \<Rightarrow>
          (let y = fst (civil (ts + zone ts))
           in if y < 0 \<or> y \<ge> 10000 then None else Some [(key, JTime ts (zone ts))]))"

fun marshal :: "(int \<Rightarrow> int) \<Rightarrow> Bookmark \<Rightarrow> json option" where
  "marshal zone (Bookmark title url parent bookmarks addAt updateAt) =
     (case those (map (marshal zone) bookmarks) of
        None \<Rightarrow> None
      | Some js \<Rightarrow>
          (case marshalTime zone ''addAt'' addAt of
             None \<Rightarrow> None
           | Some a \<Rightarrow>
               (case marshalTime zone ''updateAt'' updateAt of
                  None \<Rightarrow> None
                | Some u \<Rightarrow>
                    Some (JObject
                      ([(''title'', JString title)]
                       @ (if url = [] then [] else [(''url'', JString url)])
                       @ (if js = [] then [] else [(''bookmarks'', JArray js)])
                       @ a @ u)))))"

section \<open>The program\<close>

text \<open>
  \<^verbatim>\<open>main\<close> after the file is read and parsed: extraction, tree building,
  serialisation. The result is \<open>None\<close> when tree building does not return within
  the fuel; otherwise it is the lines printed on the way and the serialised tree,
  or \<open>None\<close> in its place when \<^verbatim>\<open>json.Marshal\<close> returned an error.
  \<open>mainMap\<close> is the third program, whose extractor goes through the Go map.
\<close>

definition main :: "nat \<Rightarrow> (int \<Rightarrow> int) \<Rightarrow> Node \<Rightarrow> (event list \<times> json option) option" where
  "main fuel zone doc =
     (let (e1, bookmarks) = parseBookmarks doc;
          (e2, tree) = buildTree fuel bookmarks
      in case tree of
           None \<Rightarrow> None
         | Some t \<Rightarrow> Some (e1 @ e2, marshal zone t))"

definition mainMap ::
  "string list \<Rightarrow> nat \<Rightarrow> (int \<Rightarrow> int) \<Rightarrow> Node \<Rightarrow> (event list \<times> json option) option" where
  "mainMap order fuel zone doc =
     (let (e1, bookmarks) = parseBookmarksMap order doc;
          (e2, tree) = buildTree fuel bookmarks
      in case tree of
           None \<Rightarrow> None
         | Some t \<Rightarrow> Some (e1 @ e2, marshal zone t))"

section \<open>Notions used in the statements\<close>

text \<open>
  The title graph of a flat collection: an edge leads from the parent title of a
  record to its title. \<open>placedTitles bs t\<close> are the titles reached from \<open>t\<close>:
  when \<open>t\<close> is the title of the root, the titles of the root and of the records
  that tree building attaches. \<open>cyclic_from bs t\<close>: a cycle of titles is reached
  from \<open>t\<close>.
\<close>

definition edges :: "Bookmark list \<Rightarrow> (string \<times> string) set" where
  "edges bs = (\<lambda>b. (Parent b, Title b)) ` set bs"

definition placedTitles :: "Bookmark list \<Rightarrow> string \<Rightarrow> string set" where
  "placedTitles bs t = {u. (t, u) \<in> (edges bs)\<^sup>*}"

definition cyclic_from :: "Bookmark list \<Rightarrow> string \<Rightarrow> bool" where
  "cyclic_from bs t \<longleftrightarrow> (\<exists>u. (t, u) \<in> (edges bs)\<^sup>* \<and> (u, u) \<in> (edges bs)\<^sup>+)"

text \<open>All the nodes of a tree, the root first.\<close>

fun nodes :: "Bookmark \<Rightarrow> Bookmark list" where
  "nodes (Bookmark t u p cs a m) = Bookmark t u p cs a m # concat (map nodes cs)"

text \<open>
  \<open>sameRecord y x\<close>: the node \<open>y\<close> carries the title, URL, parent title and
  instants of the record \<open>x\<close>; it is \<open>x\<close> or a copy of \<open>x\<close> whose children
  may have changed.
\<close>

definition sameRecord :: "Bookmark \<Rightarrow> Bookmark \<Rightarrow> bool" where
  "sameRecord y x \<longleftrightarrow>
     Title y = Title x \<and> URL y = URL x \<and> Parent y = Parent x \<and>
     AddAt y = AddAt x \<and> UpdateAt y = UpdateAt x"

text \<open>The keys of all the objects of a serialised tree.\<close>

fun keys :: "json \<Rightarrow> string list" where
  "keys (JObject fs) = map fst fs @ concat (map (\<lambda>f. keys (snd f)) fs)"
| "keys (JArray js) = concat (map keys js)"
| "keys (JString s) = []"
| "keys (JTime t z) = []"

text \<open>A tree with the parent title of every node replaced by \<open>q\<close>.\<close>

fun setParents :: "string \<Rightarrow> Bookmark \<Rightarrow> Bookmark" where
  "setParents q (Bookmark t u p cs a m) = Bookmark t u q (map (setParents q) cs) a m"

text \<open>
  A numeric attribute: an optional sign, then one decimal digit or more.
\<close>

definition numeric :: "string \<Rightarrow> bool" where
  "numeric s \<longleftrightarrow>
     (let ds = (if s \<noteq> [] \<and> (hd s = CHR ''+'' \<or> hd s = CHR ''-'') then tl s else s)
      in ds \<noteq> [] \<and> (\<forall>c \<in> set ds. isDigit c))"

text \<open>
  Documents as the parser of the library builds them from a bookmark file.
  \<open>linkItem\<close> is a \<^verbatim>\<open>DT\<close> holding an \<^verbatim>\<open>A\<close>, \<open>folderItem\<close> a \<^verbatim>\<open>DT\<close> holding an
  \<^verbatim>\<open>H3\<close>, the white space after it, the \<^verbatim>\<open>DL\<close> of its items and the
  \<^verbatim>\<open>p\<close> that follows the list in the file; the list starts with the \<^verbatim>\<open>p\<close>
  that follows \<^verbatim>\<open><DL>\<close> in the file.
  \<open>bookmarkFile\<close> is the document around the items at the top.
\<close>

definition element :: "string \<Rightarrow> (string \<times> string) list \<Rightarrow> Node list \<Rightarrow> Node" where
  "element tag attrs cs = Node ElementNode tag attrs cs"

definition textNode :: "string \<Rightarrow> Node" where
  "textNode s = Node TextNode s [] []"

definition linkItem :: "(string \<times> string) list \<Rightarrow> string \<Rightarrow> Node" where
  "linkItem attrs title = element ''dt'' [] [element ''a'' attrs [textNode title]]"

definition folderItem :: "(string \<times> string) list \<Rightarrow> string \<Rightarrow> Node list \<Rightarrow> Node" where
  "folderItem attrs title items =
     element ''dt'' []
       [element ''h3'' attrs [textNode title],
        textNode '' '',
        element ''dl'' [] (element ''p'' [] [] # items),
        element ''p'' [] []]"

definition bookmarkFile :: "Node list \<Rightarrow> Node" where
  "bookmarkFile items =
     Node DocumentNode [] []
       [Node DoctypeNode ''netscape-bookmark-file-1'' [] [],
        element ''html'' []
          [element ''head'' [] [element ''title'' [] [textNode ''Bookmarks'']],
           element ''body'' []
             [element ''h1'' [] [textNode ''Bookmarks''],
              element ''dl'' [] (element ''p'' [] [] # items)]]]"

section \<open>Facts about the tree builder\<close>

subsection \<open>The root\<close>

lemma findRootFolder_None: "findRootFolder bs = None \<longleftrightarrow> (\<forall>b \<in> set bs. Parent b \<noteq> [])"
  by (induction bs) auto

lemma findRootFolder_Some:
  "findRootFolder bs = Some i \<longleftrightarrow>
     i < length bs \<and> Parent (bs ! i) = [] \<and> (\<forall>k < i. Parent (bs ! k) \<noteq> [])"
proof (induction bs arbitrary: i)
  case Nil
  then show ?case by simp
next
  case (Cons b bs)
  show ?case
  proof (cases "Parent b = []")
    case True
    then show ?thesis by (cases i) auto
  next
    case False
    show ?thesis
    proof (cases i)
      case 0
      with False show ?thesis by auto
    next
      case (Suc j)
      have "(\<forall>k<Suc j. Parent ((b # bs) ! k) \<noteq> []) \<longleftrightarrow> (\<forall>k<j. Parent (bs ! k) \<noteq> [])"
        using False by (auto simp: less_Suc_eq_0_disj)
      with Suc False Cons.IH [of j] show ?thesis by auto
    qed
  qed
qed

subsection \<open>The scan and the fuel\<close>

lemma Title_appendChild [simp]: "Title (appendChild p c) = Title p"
  by (simp add: appendChild_def)

lemma scan_None_iff:
  "scan rec p xs = None \<longleftrightarrow> (\<exists>b \<in> set xs. Parent b = Title p \<and> rec b = None)"
  by (induction xs arbitrary: p) (auto split: option.splits)

lemma scan_result:
  "scan rec p xs = Some r \<Longrightarrow>
   r = Bookmark (Title p) (URL p) (Parent p)
         (Bookmarks p @ map (\<lambda>b. the (rec b)) (filter (\<lambda>b. Parent b = Title p) xs))
         (AddAt p) (UpdateAt p)"
proof (induction xs arbitrary: p)
  case Nil
  then show ?case by simp
next
  case (Cons b xs)
  show ?case
  proof (cases "Parent b = Title p")
    case False
    with Cons show ?thesis by simp
  next
    case True
    with Cons.prems obtain c where c: "rec b = Some c" and s: "scan rec (appendChild p c) xs = Some r"
      by (auto split: option.splits)
    from Cons.IH [OF s] True c show ?thesis
      by (simp add: appendChild_def)
  qed
qed

lemma scan_mono:
  assumes "\<And>b c. rec b = Some c \<Longrightarrow> rec' b = Some c"
  shows "scan rec p xs = Some r \<Longrightarrow> scan rec' p xs = Some r"
proof (induction xs arbitrary: p)
  case Nil
  then show ?case by simp
next
  case (Cons b xs)
  then show ?case using assms by (auto split: option.splits if_splits)
qed

lemma buildSubTree_Suc_mono:
  "buildSubTree n p bs = Some r \<Longrightarrow> buildSubTree (Suc n) p bs = Some r"
proof (induction n arbitrary: p r)
  case 0
  then show ?case by simp
next
  case (Suc n)
  from Suc.prems have "scan (\<lambda>b. buildSubTree n b bs) p bs = Some r" by simp
  then have "scan (\<lambda>b. buildSubTree (Suc n) b bs) p bs = Some r"
    by (rule scan_mono [rotated]) (rule Suc.IH)
  then show ?case by simp
qed

lemma buildSubTree_mono:
  "buildSubTree n p bs = Some r \<Longrightarrow> n \<le> m \<Longrightarrow> buildSubTree m p bs = Some r"
proof (induction m)
  case 0
  then show ?case by simp
next
  case (Suc m)
  show ?case
  proof (cases "n = Suc m")
    case True
    with Suc.prems show ?thesis by simp
  next
    case False
    with Suc.prems have "n \<le> m" by simp
    with Suc have "buildSubTree m p bs = Some r" by blast
    then show ?thesis by (rule buildSubTree_Suc_mono)
  qed
qed



subsection \<open>Cycles and termination\<close>

lemma cyclic_from_step:
  assumes "cyclic_from bs t"
  shows "\<exists>b \<in> set bs. Parent b = t \<and> cyclic_from bs (Title b)"
proof -
  from assms obtain u where tu: "(t, u) \<in> (edges bs)\<^sup>*" and uu: "(u, u) \<in> (edges bs)\<^sup>+"
    by (auto simp: cyclic_from_def)
  from tu uu have "(t, u) \<in> (edges bs)\<^sup>+" by (rule rtrancl_trancl_trancl)
  then obtain v where tv: "(t, v) \<in> edges bs" and vu: "(v, u) \<in> (edges bs)\<^sup>*"
    by (blast dest: tranclD)
  from tv obtain b where "b \<in> set bs" "Parent b = t" "Title b = v"
    by (auto simp: edges_def)
  moreover from vu uu have "cyclic_from bs v" by (auto simp: cyclic_from_def)
  ultimately show ?thesis by blast
qed

lemma buildSubTree_diverges:
  "cyclic_from bs (Title p) \<Longrightarrow> buildSubTree n p bs = None"
proof (induction n arbitrary: p)
  case 0
  then show ?case by simp
next
  case (Suc n)
  from cyclic_from_step [OF Suc.prems] obtain b
    where b: "b \<in> set bs" "Parent b = Title p" "cyclic_from bs (Title b)" by blast
  then have "buildSubTree n b bs = None" by (simp add: Suc.IH)
  with b show ?case by (auto simp: scan_None_iff)
qed

lemma buildSubTree_mono_defined:
  "buildSubTree n p bs \<noteq> None \<Longrightarrow> n \<le> m \<Longrightarrow> buildSubTree m p bs \<noteq> None"
proof -
  assume "buildSubTree n p bs \<noteq> None" and le: "n \<le> m"
  then obtain r where "buildSubTree n p bs = Some r" by blast
  from buildSubTree_mono [OF this le] show ?thesis by simp
qed

lemma uniform_fuel:
  assumes "\<forall>b \<in> set xs. \<exists>n. buildSubTree n b bs \<noteq> None"
  shows "\<exists>n. \<forall>b \<in> set xs. buildSubTree n b bs \<noteq> None"
  using assms
proof (induction xs)
  case Nil
  then show ?case by simp
next
  case (Cons x xs)
  then obtain n where n: "\<forall>b \<in> set xs. buildSubTree n b bs \<noteq> None" by auto
  from Cons.prems obtain m where m: "buildSubTree m x bs \<noteq> None" by auto
  have "\<forall>b \<in> set (x # xs). buildSubTree (max n m) b bs \<noteq> None"
  proof
    fix b assume "b \<in> set (x # xs)"
    then have "\<exists>k \<le> max n m. buildSubTree k b bs \<noteq> None"
      using n m by (cases "b = x") (auto intro: exI [of _ n] exI [of _ m])
    then obtain k where "k \<le> max n m" "buildSubTree k b bs \<noteq> None" by blast
    then show "buildSubTree (max n m) b bs \<noteq> None"
      using buildSubTree_mono_defined [of k b bs "max n m"] by simp
  qed
  then show ?case ..
qed

lemma edges_conv: "b \<in> set bs \<Longrightarrow> (Title b, Parent b) \<in> (edges bs)\<inverse>"
  unfolding edges_def by (rule converseI) (rule image_eqI [where x = b], simp_all)

lemma buildSubTree_terminates_title:
  assumes "wf ((edges bs)\<inverse>)"
  shows "\<forall>p. Title p = t \<longrightarrow> (\<exists>n. buildSubTree n p bs \<noteq> None)"
  using assms
proof (induction t rule: wf_induct_rule)
  case (less t)
  show ?case
  proof (intro allI impI)
    fix p assume p: "Title p = t"
    have "\<forall>b \<in> set (filter (\<lambda>b. Parent b = t) bs). \<exists>n. buildSubTree n b bs \<noteq> None"
    proof
      fix b assume "b \<in> set (filter (\<lambda>b. Parent b = t) bs)"
      then have "b \<in> set bs" "Parent b = t" by simp_all
      with edges_conv [of b bs] have "(Title b, t) \<in> (edges bs)\<inverse>" by simp
      from less [OF this] show "\<exists>n. buildSubTree n b bs \<noteq> None" by blast
    qed
    from uniform_fuel [OF this] obtain n
      where n: "\<forall>b \<in> set (filter (\<lambda>b. Parent b = t) bs). buildSubTree n b bs \<noteq> None" ..
    have "scan (\<lambda>b. buildSubTree n b bs) p bs \<noteq> None"
      unfolding scan_None_iff using n p by auto
    then have "buildSubTree (Suc n) p bs \<noteq> None" by simp
    then show "\<exists>n. buildSubTree n p bs \<noteq> None" ..
  qed
qed

lemma buildSubTree_terminates:
  "wf ((edges bs)\<inverse>) \<Longrightarrow> \<exists>n. buildSubTree n p bs \<noteq> None"
  using buildSubTree_terminates_title [of bs "Title p"] by blast

lemma finite_edges: "finite (edges bs)"
  by (simp add: edges_def)

lemma acyclic_terminates:
  "acyclic (edges bs) \<Longrightarrow> \<exists>n. buildSubTree n p bs \<noteq> None"
  by (rule buildSubTree_terminates) (simp add: finite_acyclic_wf_converse finite_edges)

subsection \<open>The nodes of the tree built\<close>

lemma nodes_unfold: "nodes b = b # concat (map nodes (Bookmarks b))"
  by (cases b) simp

lemma buildSubTree_result:
  assumes "buildSubTree (Suc n) p bs = Some r"
  shows "r = Bookmark (Title p) (URL p) (Parent p)
           (Bookmarks p @ map (\<lambda>b. the (buildSubTree n b bs)) (filter (\<lambda>b. Parent b = Title p) bs))
           (AddAt p) (UpdateAt p)"
    and "\<forall>b \<in> set bs. Parent b = Title p \<longrightarrow> buildSubTree n b bs \<noteq> None"
proof -
  from assms have s: "scan (\<lambda>b. buildSubTree n b bs) p bs = Some r" by simp
  from scan_result [OF s] show "r = Bookmark (Title p) (URL p) (Parent p)
           (Bookmarks p @ map (\<lambda>b. the (buildSubTree n b bs)) (filter (\<lambda>b. Parent b = Title p) bs))
           (AddAt p) (UpdateAt p)" .
  from s have "scan (\<lambda>b. buildSubTree n b bs) p bs \<noteq> None" by simp
  then show "\<forall>b \<in> set bs. Parent b = Title p \<longrightarrow> buildSubTree n b bs \<noteq> None"
    by (simp add: scan_None_iff)
qed

lemma buildSubTree_sameRecord:
  "buildSubTree n p bs = Some r \<Longrightarrow> sameRecord r p"
proof (cases n)
  case 0
  assume "buildSubTree n p bs = Some r"
  with 0 show ?thesis by simp
next
  case (Suc k)
  assume "buildSubTree n p bs = Some r"
  with Suc have "buildSubTree (Suc k) p bs = Some r" by simp
  from buildSubTree_result(1) [OF this] show ?thesis
    by (simp add: sameRecord_def)
qed

lemma placedTitles_step:
  assumes "b \<in> set bs" "Parent b = t"
  shows "placedTitles bs (Title b) \<subseteq> placedTitles bs t"
proof -
  from assms have "(t, Title b) \<in> edges bs" by (auto simp: edges_def)
  then show ?thesis
    by (auto simp: placedTitles_def intro: converse_rtrancl_into_rtrancl)
qed

lemma buildSubTree_nodes:
  "buildSubTree n p bs = Some r \<Longrightarrow> y \<in> set (nodes r) \<Longrightarrow>
     y = r \<or> (\<exists>c \<in> set (Bookmarks p). y \<in> set (nodes c)) \<or>
     (\<exists>b \<in> set bs. Parent b \<in> placedTitles bs (Title p) \<and>
        (sameRecord y b \<or> (\<exists>c \<in> set (Bookmarks b). y \<in> set (nodes c))))"
proof (induction n arbitrary: p r y)
  case 0
  then show ?case by simp
next
  case (Suc n)
  let ?ms = "filter (\<lambda>b. Parent b = Title p) bs"
  from buildSubTree_result [OF Suc.prems(1)]
  have r: "Bookmarks r = Bookmarks p @ map (\<lambda>b. the (buildSubTree n b bs)) ?ms"
    and d: "\<forall>b \<in> set bs. Parent b = Title p \<longrightarrow> buildSubTree n b bs \<noteq> None"
    by simp_all
  from Suc.prems(2) have "y = r \<or> (\<exists>c \<in> set (Bookmarks r). y \<in> set (nodes c))"
    by (subst (asm) nodes_unfold) auto
  then consider "y = r" | c where "c \<in> set (Bookmarks p)" "y \<in> set (nodes c)"
    | b where "b \<in> set bs" "Parent b = Title p" "y \<in> set (nodes (the (buildSubTree n b bs)))"
    using r by auto
  then show ?case
  proof cases
    case 1
    then show ?thesis by simp
  next
    case 2
    then show ?thesis by blast
  next
    case 3
    with d obtain c where c: "buildSubTree n b bs = Some c" by blast
    with 3 have yc: "y \<in> set (nodes c)" by simp
    have sub: "placedTitles bs (Title b) \<subseteq> placedTitles bs (Title p)"
      using 3 by (simp add: placedTitles_step)
    have pb: "Parent b \<in> placedTitles bs (Title p)"
      using 3 by (simp add: placedTitles_def)
    from Suc.IH [OF c yc] consider "y = c" | "\<exists>c \<in> set (Bookmarks b). y \<in> set (nodes c)"
      | "\<exists>b' \<in> set bs. Parent b' \<in> placedTitles bs (Title b) \<and>
          (sameRecord y b' \<or> (\<exists>c \<in> set (Bookmarks b'). y \<in> set (nodes c)))"
      by blast
    then show ?thesis
    proof cases
      case 1
      with c have "sameRecord y b" by (simp add: buildSubTree_sameRecord)
      with 3 pb show ?thesis by blast
    next
      case 2
      with 3 pb show ?thesis by blast
    next
      case 3
      with sub show ?thesis by blast
    qed
  qed
qed

lemma placed_title_in_tree:
  assumes "(s, t) \<in> (edges bs)\<^sup>*"
  shows "\<forall>n p r. Title p = s \<longrightarrow> buildSubTree n p bs = Some r \<longrightarrow> (\<exists>y \<in> set (nodes r). Title y = t)"
  using assms
proof (induction rule: converse_rtrancl_induct)
  case base
  show ?case
  proof (intro allI impI)
    fix n p r assume "Title p = t" "buildSubTree n p bs = Some r"
    then have "Title r = t" using buildSubTree_sameRecord [of n p bs r] by (simp add: sameRecord_def)
    moreover have "r \<in> set (nodes r)" by (subst nodes_unfold) simp
    ultimately show "\<exists>y \<in> set (nodes r). Title y = t" by blast
  qed
next
  case (step s v)
  show ?case
  proof (intro allI impI)
    fix n p r assume p: "Title p = s" and b: "buildSubTree n p bs = Some r"
    from step(1) obtain x where x: "x \<in> set bs" "Parent x = s" "Title x = v"
      by (auto simp: edges_def)
    from b obtain k where k: "n = Suc k" by (cases n) simp_all
    from buildSubTree_result [OF b [unfolded k]] x p
    obtain c where c: "buildSubTree k x bs = Some c"
      and r: "Bookmarks r = Bookmarks p @ map (\<lambda>b. the (buildSubTree k b bs)) (filter (\<lambda>b. Parent b = Title p) bs)"
      by auto
    from x p c r have "c \<in> set (Bookmarks r)" by force
    moreover from step(3) x c obtain y where "y \<in> set (nodes c)" "Title y = t" by blast
    ultimately show "\<exists>y \<in> set (nodes r). Title y = t"
      by (subst nodes_unfold) auto
  qed
qed

lemma returns_no_empty_title:
  assumes i: "findRootFolder bs = Some i" and r: "buildSubTree n (bs ! i) bs = Some r"
  shows "[] \<notin> placedTitles bs (Title (bs ! i))"
proof
  assume e: "[] \<in> placedTitles bs (Title (bs ! i))"
  from i have "bs ! i \<in> set bs" "Parent (bs ! i) = []"
    by (simp_all add: findRootFolder_Some)
  then have "([], Title (bs ! i)) \<in> edges bs" by (force simp: edges_def)
  with e have "(Title (bs ! i), Title (bs ! i)) \<in> (edges bs)\<^sup>+"
    by (auto simp: placedTitles_def intro: rtrancl_into_trancl1)
  then have "cyclic_from bs (Title (bs ! i))" by (auto simp: cyclic_from_def)
  from buildSubTree_diverges [OF this] r show False by simp
qed

lemma placedTitles_subset: "placedTitles bs t \<subseteq> insert t (Title ` set bs)"
proof
  fix u assume "u \<in> placedTitles bs t"
  then have "(t, u) \<in> (edges bs)\<^sup>*" by (simp add: placedTitles_def)
  then show "u \<in> insert t (Title ` set bs)"
    by (induction rule: rtrancl_induct) (auto simp: edges_def)
qed

lemma sameRecord_trans: "sameRecord a b \<Longrightarrow> sameRecord a c \<Longrightarrow> sameRecord b c"
  by (simp add: sameRecord_def)

lemma dropped_aux:
  assumes root: "bs ! i \<in> set bs"
    and run: "buildSubTree n (bs ! i) bs = Some out"
    and np: "Parent x \<notin> placedTitles bs (Title (bs ! i))"
    and nr: "\<not> sameRecord (bs ! i) x"
    and nl: "\<forall>b \<in> set bs. \<forall>c \<in> set (Bookmarks b). \<forall>y \<in> set (nodes c). \<not> sameRecord y x"
  shows "\<forall>y \<in> set (nodes out). \<not> sameRecord y x"
proof
  fix y assume y: "y \<in> set (nodes out)"
  from buildSubTree_nodes [OF run y]
  consider "y = out" | "\<exists>c \<in> set (Bookmarks (bs ! i)). y \<in> set (nodes c)"
    | b where "b \<in> set bs" "Parent b \<in> placedTitles bs (Title (bs ! i))" "sameRecord y b"
    | "\<exists>b \<in> set bs. \<exists>c \<in> set (Bookmarks b). y \<in> set (nodes c)"
    by blast
  then show "\<not> sameRecord y x"
  proof cases
    case 1
    with run have "sameRecord y (bs ! i)" by (simp add: buildSubTree_sameRecord)
    with nr show ?thesis by (blast dest: sameRecord_trans)
  next
    case 2
    with root nl show ?thesis by blast
  next
    case 3
    with np have "Parent y \<noteq> Parent x" by (auto simp: sameRecord_def)
    then show ?thesis by (simp add: sameRecord_def)
  next
    case 4
    with nl show ?thesis by blast
  qed
qed


section \<open>The claims about the tree builder\<close>

text \<open>
  C3: when no record of the flat collection has an empty parent title, tree building
  prints "root folder not found", and nothing else, and returns the zero record,
  whatever the fuel: it returns at once, without entering the recursion. The record
  returned is not a record of the collection.
\<close>

theorem buildTree_root_not_found:
  assumes "\<forall>b \<in> set bs. Parent b \<noteq> []"
  shows "buildTree fuel bs = ([RootNotFound], Some emptyBookmark) \<and> emptyBookmark \<notin> set bs"
proof -
  from assms have "findRootFolder bs = None"
    by (simp add: findRootFolder_None)
  then have "buildTree fuel bs = ([RootNotFound], Some emptyBookmark)"
    by (simp add: buildTree_def)
  moreover have "emptyBookmark \<notin> set bs"
    using assms by (auto simp: emptyBookmark_def)
  ultimately show ?thesis by simp
qed

theorem buildTree_root_not_found_witness:
  "buildTree 0 [Bookmark ''Work'' [] ''Bar'' [] None None,
                Bookmark ''Play'' [] ''Work'' [] None None]
     = ([RootNotFound], Some emptyBookmark)
   \<and> emptyBookmark \<notin> set [Bookmark ''Work'' [] ''Bar'' [] None None,
                            Bookmark ''Play'' [] ''Work'' [] None None]"
  using buildTree_root_not_found
    [of "[Bookmark ''Work'' [] ''Bar'' [] None None,
          Bookmark ''Play'' [] ''Work'' [] None None]" 0]
  by simp

text \<open>
  C4: a record \<open>x\<close> of the flat collection whose parent title is not the title of
  the root nor of any record attached to the tree (it is not in \<open>placedTitles\<close>;
  by \<open>placed_title_in_tree\<close> each of those titles is the title of a node of the
  tree) appears nowhere in the tree returned: no node of the tree carries the
  fields of \<open>x\<close>. Nothing is printed. The nodes of the tree are compared with
  \<open>x\<close> by their fields, so \<open>x\<close> has to differ in a field from the root and
  from the links that the records already hold as children, which are in the tree
  for their own sake.
\<close>

theorem unreachable_record_dropped:
  assumes "findRootFolder bs = Some i"
    and "buildTree n bs = (evs, Some out)"
    and "x \<in> set bs"
    and "Parent x \<notin> placedTitles bs (Title (bs ! i))"
    and "\<not> sameRecord (bs ! i) x"
    and "\<forall>b \<in> set bs. \<forall>c \<in> set (Bookmarks b). \<forall>y \<in> set (nodes c). \<not> sameRecord y x"
  shows "evs = [] \<and> (\<forall>y \<in> set (nodes out). \<not> sameRecord y x)"
proof -
  from assms(1,2) have evs: "evs = []" and run: "buildSubTree n (bs ! i) bs = Some out"
    by (simp_all add: buildTree_def)
  from assms(1) have "bs ! i \<in> set bs" by (simp add: findRootFolder_Some)
  from dropped_aux [OF this run assms(4,5,6)] evs show ?thesis by simp
qed

theorem unreachable_record_dropped_witness:
  "buildTree 2 [Bookmark ''Bar'' [] [] [Bookmark ''a'' ''http://a'' [] [] None None] None None,
                Bookmark ''Work'' [] ''Bar'' [] None None,
                Bookmark ''Lost'' [] ''Ghost'' [] None None]
     = ([], Some (Bookmark ''Bar'' [] []
           [Bookmark ''a'' ''http://a'' [] [] None None,
            Bookmark ''Work'' [] ''Bar'' [] None None] None None))
   \<and> filter (\<lambda>y. sameRecord y (Bookmark ''Lost'' [] ''Ghost'' [] None None))
        (nodes (Bookmark ''Bar'' [] []
           [Bookmark ''a'' ''http://a'' [] [] None None,
            Bookmark ''Work'' [] ''Bar'' [] None None] None None)) = []"
proof -
  let ?bs = "[Bookmark ''Bar'' [] [] [Bookmark ''a'' ''http://a'' [] [] None None] None None,
              Bookmark ''Work'' [] ''Bar'' [] None None,
              Bookmark ''Lost'' [] ''Ghost'' [] None None]"
  let ?x = "Bookmark ''Lost'' [] ''Ghost'' [] None None"
  let ?out = "Bookmark ''Bar'' [] []
           [Bookmark ''a'' ''http://a'' [] [] None None,
            Bookmark ''Work'' [] ''Bar'' [] None None] None None"
  have f: "findRootFolder ?bs = Some 0" by simp
  have b: "buildTree 2 ?bs = ([], Some ?out)"
    by (simp add: buildTree_def numeral_2_eq_2 appendChild_def)
  have x: "?x \<in> set ?bs" by simp
  have p: "Parent ?x \<notin> placedTitles ?bs (Title (?bs ! 0))"
    using placedTitles_subset [of ?bs "Title (?bs ! 0)"] by auto
  have r: "\<not> sameRecord (?bs ! 0) ?x" by (simp add: sameRecord_def)
  have l: "\<forall>b \<in> set ?bs. \<forall>c \<in> set (Bookmarks b). \<forall>y \<in> set (nodes c). \<not> sameRecord y ?x"
    by (simp add: sameRecord_def)
  from unreachable_record_dropped [OF f b x p r l] b show ?thesis
    by (simp add: sameRecord_def)
qed

text \<open>
  C10: when several records have an empty parent title, the one at the least
  position \<open>i\<close> is taken as the root, and nothing is printed. When tree building
  returns, the tree is that record with its children; the empty title is not among
  the titles placed in the tree, so no other root candidate is attached: a
  candidate \<open>x\<close> that differs in a field from the root and from the links held as
  children appears nowhere in the tree.
\<close>

theorem first_root_candidate_wins:
  assumes "i < length bs" and "Parent (bs ! i) = []" and "\<forall>k < i. Parent (bs ! k) \<noteq> []"
  shows "findRootFolder bs = Some i \<and> fst (buildTree n bs) = [] \<and>
         (\<forall>out. snd (buildTree n bs) = Some out \<longrightarrow>
            sameRecord out (bs ! i) \<and>
            [] \<notin> placedTitles bs (Title (bs ! i)) \<and>
            (\<forall>x \<in> set bs. Parent x = [] \<longrightarrow> \<not> sameRecord (bs ! i) x \<longrightarrow>
               (\<forall>b \<in> set bs. \<forall>c \<in> set (Bookmarks b). \<forall>y \<in> set (nodes c). \<not> sameRecord y x) \<longrightarrow>
               (\<forall>y \<in> set (nodes out). \<not> sameRecord y x)))"
proof (intro conjI allI impI)
  from assms show f: "findRootFolder bs = Some i" by (simp add: findRootFolder_Some)
  then show "fst (buildTree n bs) = []" by (simp add: buildTree_def)
  fix out assume "snd (buildTree n bs) = Some out"
  with f have run: "buildSubTree n (bs ! i) bs = Some out" by (simp add: buildTree_def)
  then show "sameRecord out (bs ! i)" by (rule buildSubTree_sameRecord)
  from f run show ne: "[] \<notin> placedTitles bs (Title (bs ! i))"
    by (rule returns_no_empty_title)
  from assms(1) have root: "bs ! i \<in> set bs" by simp
  have "\<forall>y \<in> set (nodes out). \<not> sameRecord y x"
    if "Parent x = []" "\<not> sameRecord (bs ! i) x"
      "\<forall>b \<in> set bs. \<forall>c \<in> set (Bookmarks b). \<forall>y \<in> set (nodes c). \<not> sameRecord y x" for x
    using root run _ that(2,3)
  proof (rule dropped_aux)
    from ne that(1) show "Parent x \<notin> placedTitles bs (Title (bs ! i))" by simp
  qed
  then show "\<forall>x \<in> set bs. Parent x = [] \<longrightarrow> \<not> sameRecord (bs ! i) x \<longrightarrow>
               (\<forall>b \<in> set bs. \<forall>c \<in> set (Bookmarks b). \<forall>y \<in> set (nodes c). \<not> sameRecord y x) \<longrightarrow>
               (\<forall>y \<in> set (nodes out). \<not> sameRecord y x)"
    by blast
qed

theorem first_root_candidate_wins_witness:
  "findRootFolder [Bookmark ''Work'' [] ''Bar'' [] None None,
                   Bookmark ''Bar'' [] [] [] None None,
                   Bookmark ''Other'' [] [] [] None None] = Some 1
   \<and> buildTree 2 [Bookmark ''Work'' [] ''Bar'' [] None None,
                   Bookmark ''Bar'' [] [] [] None None,
                   Bookmark ''Other'' [] [] [] None None]
     = ([], Some (Bookmark ''Bar'' [] [] [Bookmark ''Work'' [] ''Bar'' [] None None] None None))
   \<and> filter (\<lambda>y. sameRecord y (Bookmark ''Other'' [] [] [] None None))
        (nodes (Bookmark ''Bar'' [] [] [Bookmark ''Work'' [] ''Bar'' [] None None] None None)) = []"
proof -
  let ?bs = "[Bookmark ''Work'' [] ''Bar'' [] None None,
              Bookmark ''Bar'' [] [] [] None None,
              Bookmark ''Other'' [] [] [] None None]"
  let ?out = "Bookmark ''Bar'' [] [] [Bookmark ''Work'' [] ''Bar'' [] None None] None None"
  have a: "1 < length ?bs" "Parent (?bs ! 1) = []" "\<forall>k < 1. Parent (?bs ! k) \<noteq> []"
    by simp_all
  have b: "buildTree 2 ?bs = ([], Some ?out)"
    by (simp add: buildTree_def numeral_2_eq_2 appendChild_def)
  from first_root_candidate_wins [OF a, of 2] b show ?thesis
    by (simp add: sameRecord_def)
qed

text \<open>
  C8: when the title graph of the flat collection has no cycle, tree building
  returns (some fuel is enough). When there is a root and a title \<open>t\<close> placed in
  the tree lies on a cycle of titles (a record below the root whose parent title is
  its own title, or a longer cycle), tree building returns with no fuel: the
  recursion does not end.
\<close>

theorem buildTree_termination:
  "(acyclic (edges bs) \<longrightarrow> (\<exists>n. snd (buildTree n bs) \<noteq> None)) \<and>
   (\<forall>i t. findRootFolder bs = Some i \<and> t \<in> placedTitles bs (Title (bs ! i)) \<and>
           (t, t) \<in> (edges bs)\<^sup>+ \<longrightarrow> (\<forall>n. snd (buildTree n bs) = None))"
proof (intro conjI impI allI)
  assume ac: "acyclic (edges bs)"
  show "\<exists>n. snd (buildTree n bs) \<noteq> None"
  proof (cases "findRootFolder bs")
    case None
    then show ?thesis by (simp add: buildTree_def)
  next
    case (Some i)
    from acyclic_terminates [OF ac] obtain n where "buildSubTree n (bs ! i) bs \<noteq> None" ..
    with Some have "snd (buildTree n bs) \<noteq> None" by (simp add: buildTree_def)
    then show ?thesis ..
  qed
next
  fix i t n
  assume h: "findRootFolder bs = Some i \<and> t \<in> placedTitles bs (Title (bs ! i)) \<and>
             (t, t) \<in> (edges bs)\<^sup>+"
  then have "cyclic_from bs (Title (bs ! i))"
    by (auto simp: cyclic_from_def placedTitles_def)
  then have "buildSubTree n (bs ! i) bs = None" by (rule buildSubTree_diverges)
  with h show "snd (buildTree n bs) = None" by (simp add: buildTree_def)
qed

theorem buildTree_termination_witness:
  "(\<exists>n. snd (buildTree n [Bookmark ''Bar'' [] [] [] None None,
                            Bookmark ''Work'' [] ''Bar'' [] None None]) \<noteq> None) \<and>
   (\<forall>n. snd (buildTree n [Bookmark ''Bar'' [] [] [] None None,
                            Bookmark ''Work'' [] ''Bar'' [] None None,
                            Bookmark ''Work'' [] ''Work'' [] None None]) = None)"
proof -
  let ?a = "[Bookmark ''Bar'' [] [] [] None None, Bookmark ''Work'' [] ''Bar'' [] None None]"
  let ?c = "[Bookmark ''Bar'' [] [] [] None None, Bookmark ''Work'' [] ''Bar'' [] None None,
             Bookmark ''Work'' [] ''Work'' [] None None]"
  have ac: "acyclic (edges ?a)"
    by (simp add: edges_def acyclic_insert rtrancl_insert) (simp add: acyclic_def)
  have f: "findRootFolder ?c = Some 0" by simp
  have "(''Bar'', ''Work'') \<in> edges ?c" by (simp add: edges_def)
  then have p: "''Work'' \<in> placedTitles ?c (Title (?c ! 0))"
    by (simp add: placedTitles_def r_into_rtrancl)
  have "(''Work'', ''Work'') \<in> edges ?c" by (simp add: edges_def)
  then have l: "(''Work'', ''Work'') \<in> (edges ?c)\<^sup>+" by (rule r_into_trancl)
  from buildTree_termination [of ?a] ac
  have 1: "\<exists>n. snd (buildTree n ?a) \<noteq> None" by blast
  from buildTree_termination [of ?c] f p l
  have 2: "\<forall>n. snd (buildTree n ?c) = None" by blast
  from 1 2 show ?thesis by blast
qed

text \<open>
  C1, as stated, fails: for a root \<^verbatim>\<open>Bar\<close> and two folder records titled
  \<^verbatim>\<open>Work\<close> below it, the first holding the link \<^verbatim>\<open>a\<close> and the second the link
  \<^verbatim>\<open>b\<close>, the tree has two nodes titled \<^verbatim>\<open>Work\<close>, each with its own link.
\<close>

theorem duplicate_titles_not_merged:
  "buildTree 2 [Bookmark ''Bar'' [] [] [] None None,
                Bookmark ''Work'' [] ''Bar'' [Bookmark ''a'' ''http://a'' [] [] None None] None None,
                Bookmark ''Work'' [] ''Bar'' [Bookmark ''b'' ''http://b'' [] [] None None] None None]
     = ([], Some (Bookmark ''Bar'' [] []
          [Bookmark ''Work'' [] ''Bar'' [Bookmark ''a'' ''http://a'' [] [] None None] None None,
           Bookmark ''Work'' [] ''Bar'' [Bookmark ''b'' ''http://b'' [] [] None None] None None]
          None None))
   \<and> count_list (map Title (nodes (Bookmark ''Bar'' [] []
          [Bookmark ''Work'' [] ''Bar'' [Bookmark ''a'' ''http://a'' [] [] None None] None None,
           Bookmark ''Work'' [] ''Bar'' [Bookmark ''b'' ''http://b'' [] [] None None] None None]
          None None))) ''Work'' = 2"
  by (simp add: buildTree_def numeral_2_eq_2 appendChild_def)

text \<open>
  C1, amended: for a flat collection made of a root whose title is not empty,
  followed by two folder records whose parent is the root and which have the same
  title, not empty and other than the title of the root, tree building returns the
  root with both records as children, in the order of the collection, each with the
  children it carried: the two folders stay two nodes and their links are not
  merged. (With an empty root title, or with the root titled like the two folders,
  the titles form a cycle and tree building does not return.)
\<close>

theorem duplicate_titles_kept_apart:
  assumes "Parent r = []" and "Title r \<noteq> []"
    and "Title w1 = Title w2" and "Title w1 \<noteq> []" and "Title w1 \<noteq> Title r"
    and "Parent w1 = Title r" and "Parent w2 = Title r"
  shows "buildTree (Suc (Suc n)) [r, w1, w2] = ([], Some (appendChild (appendChild r w1) w2))"
proof -
  let ?bs = "[r, w1, w2]"
  have w1: "buildSubTree (Suc n) w1 ?bs = Some w1"
    using assms by simp
  have w2: "buildSubTree (Suc n) w2 ?bs = Some w2"
    using assms by simp
  have "buildSubTree (Suc (Suc n)) r ?bs = Some (appendChild (appendChild r w1) w2)"
    using assms w1 w2 by (simp del: buildSubTree.simps add: buildSubTree.simps(2) [of "Suc n"])
  with assms(1) show ?thesis by (simp add: buildTree_def del: buildSubTree.simps)
qed

theorem duplicate_titles_kept_apart_witness:
  "buildTree 2 [Bookmark ''Bar'' [] [] [] None None,
                Bookmark ''Work'' [] ''Bar'' [Bookmark ''a'' ''http://a'' [] [] None None] None None,
                Bookmark ''Work'' [] ''Bar'' [Bookmark ''b'' ''http://b'' [] [] None None] None None]
     = ([], Some (appendChild (appendChild (Bookmark ''Bar'' [] [] [] None None)
          (Bookmark ''Work'' [] ''Bar'' [Bookmark ''a'' ''http://a'' [] [] None None] None None))
          (Bookmark ''Work'' [] ''Bar'' [Bookmark ''b'' ''http://b'' [] [] None None] None None)))"
  using duplicate_titles_kept_apart
    [of "Bookmark ''Bar'' [] [] [] None None"
        "Bookmark ''Work'' [] ''Bar'' [Bookmark ''a'' ''http://a'' [] [] None None] None None"
        "Bookmark ''Work'' [] ''Bar'' [Bookmark ''b'' ''http://b'' [] [] None None] None None" 0]
  by (simp add: numeral_2_eq_2 del: buildSubTree.simps)

section \<open>Facts about timestamps, extraction and serialisation\<close>

lemma parseUintLoop_nondigit:
  "\<exists>c \<in> set s. \<not> isDigit c \<Longrightarrow> \<exists>e. parseUintLoop n s = Inl e"
proof (induction s arbitrary: n)
  case Nil
  then show ?case by simp
next
  case (Cons c cs)
  show ?case
  proof (cases "isDigit c")
    case False
    then show ?thesis by simp
  next
    case True
    with Cons.prems have "\<exists>c \<in> set cs. \<not> isDigit c" by auto
    from Cons.IH [OF this] show ?thesis by auto
  qed
qed

lemma ParseUint_not_digits:
  assumes "ds = [] \<or> (\<exists>c \<in> set ds. \<not> isDigit c)"
  shows "\<exists>e. ParseUint ds = Inl e"
proof (cases "ds = []")
  case True
  then show ?thesis by (simp add: ParseUint_def)
next
  case False
  with assms have "\<exists>c \<in> set ds. \<not> isDigit c" by simp
  from parseUintLoop_nondigit [OF this, of 0] False show ?thesis
    by (simp add: ParseUint_def)
qed

lemma ParseInt_of_ParseUint_error:
  assumes "s \<noteq> []"
    and "ParseUint (if hd s = CHR ''+'' \<or> hd s = CHR ''-'' then tl s else s) = Inl e"
  shows "\<exists>e'. ParseInt s = Inl e'"
proof (cases e)
  case ErrSyntax
  with assms show ?thesis by (simp add: ParseInt_def Let_def)
next
  case ErrRange
  with assms show ?thesis by (simp add: ParseInt_def Let_def maxUint64_def)
qed

lemma ParseInt_not_numeric:
  assumes "\<not> numeric s"
  shows "\<exists>e. ParseInt s = Inl e"
proof (cases "s = []")
  case True
  then show ?thesis by (simp add: ParseInt_def)
next
  case False
  let ?ds = "if hd s = CHR ''+'' \<or> hd s = CHR ''-'' then tl s else s"
  from assms False have "?ds = [] \<or> (\<exists>c \<in> set ?ds. \<not> isDigit c)"
    by (auto simp: numeric_def Let_def split: if_splits)
  from ParseUint_not_digits [OF this] obtain e where "ParseUint ?ds = Inl e" ..
  with False show ?thesis by (rule ParseInt_of_ParseUint_error)
qed

lemma eachH3_records:
  "snd (eachH3 doc hs) = map (\<lambda>h. snd (folderOf doc h)) hs"
  by (induction hs) (simp_all add: split_beta)

lemma eachDT_records:
  "snd (eachDT doc dts) =
     map (\<lambda>d. snd (linkOf doc (First (ChildrenSel doc [d]))))
       (filter (\<lambda>d. Is doc (First (ChildrenSel doc [d])) ''a'') dts)"
  by (induction dts) (simp_all add: split_beta Let_def)

lemma those_Some_set:
  "those xs = Some js \<Longrightarrow> j \<in> set js \<Longrightarrow> Some j \<in> set xs"
  by (induction xs arbitrary: js) (auto split: option.splits)

lemma marshalTime_keys:
  "marshalTime zone key t = Some fs \<Longrightarrow> fs = [] \<or> (\<exists>ts z. fs = [(key, JTime ts z)])"
  by (auto simp: marshalTime_def Let_def split: option.splits if_splits)

lemma marshal_keys:
  "marshal zone b = Some j \<Longrightarrow>
     set (keys j) \<subseteq> {''title'', ''url'', ''bookmarks'', ''addAt'', ''updateAt''}"
proof (induction b arbitrary: j)
  case (Bookmark t u p cs a m)
  from Bookmark.prems obtain js fa fm
    where js: "those (map (marshal zone) cs) = Some js"
      and fa: "marshalTime zone ''addAt'' a = Some fa"
      and fm: "marshalTime zone ''updateAt'' m = Some fm"
      and j: "j = JObject ([(''title'', JString t)]
                 @ (if u = [] then [] else [(''url'', JString u)])
                 @ (if js = [] then [] else [(''bookmarks'', JArray js)]) @ fa @ fm)"
    by (auto split: option.splits)
  have sub: "set (keys x) \<subseteq> {''title'', ''url'', ''bookmarks'', ''addAt'', ''updateAt''}"
    if "x \<in> set js" for x
  proof -
    from those_Some_set [OF js that] obtain c where "c \<in> set cs" "marshal zone c = Some x"
      by auto
    then show ?thesis by (rule Bookmark.IH)
  qed
  from marshalTime_keys [OF fa] marshalTime_keys [OF fm] sub show ?case
    unfolding j by (auto split: if_splits)
qed

lemma marshal_setParents: "marshal zone (setParents q b) = marshal zone b"
proof (induction b)
  case (Bookmark t u p cs a m)
  then have eq: "map (marshal zone \<circ> setParents q) cs = map (marshal zone) cs"
    by simp
  show ?case by (simp add: eq)
qed

lemmas dom_defs = bookmarkFile_def folderItem_def linkItem_def element_def textNode_def
  parseBookmarks_def Find_def isElement_def Is_def Next_def Prev_def ParentSel_def ChildrenSel_def
  ChildrenFiltered_def First_def Text_def AttrOr_def nextOf_def prevOf_def parentOf_def childrenOf_def
  elementIndices_def folderOf_def linkOf_def Let_def

lemmas time_defs = parseTime_def ParseInt_def ParseUint_def isDigit_def maxUint64_def

lemma parseBookmarks_two_folders:
  "snd (parseBookmarks (bookmarkFile
      [folderItem ra rt [linkItem a1 t1, linkItem a2 t2, folderItem sa st [linkItem a3 t3]]])) =
   [Bookmark rt [] []
      [snd (linkOf (Node ElementNode ''a'' a1 [textNode t1]) [[]]),
       snd (linkOf (Node ElementNode ''a'' a2 [textNode t2]) [[]])]
      (snd (parseTime (case map_of ra ''add_date'' of None \<Rightarrow> [] | Some v \<Rightarrow> v)))
      (snd (parseTime (case map_of ra ''last_modified'' of None \<Rightarrow> [] | Some v \<Rightarrow> v))),
    Bookmark st [] rt
      [snd (linkOf (Node ElementNode ''a'' a3 [textNode t3]) [[]])]
      (snd (parseTime (case map_of sa ''add_date'' of None \<Rightarrow> [] | Some v \<Rightarrow> v)))
      (snd (parseTime (case map_of sa ''last_modified'' of None \<Rightarrow> [] | Some v \<Rightarrow> v)))]"
  by (simp add: dom_defs upt_rec split_beta)

lemma Title_linkOf: "Title (snd (linkOf doc sel)) = Text doc sel"
  by (simp add: linkOf_def split_beta)

lemma buildTree_root_and_folder:
  assumes "rt \<noteq> []" and "st \<noteq> []" and "st \<noteq> rt"
  shows "buildTree 2 [Bookmark rt u [] cs a m, Bookmark st u' rt cs' a' m']
           = ([], Some (Bookmark rt u [] (cs @ [Bookmark st u' rt cs' a' m']) a m))"
proof -
  let ?R = "Bookmark rt u [] cs a m" and ?S = "Bookmark st u' rt cs' a' m'"
  have sub: "buildSubTree (Suc 0) ?S [?R, ?S] = Some ?S"
    using assms by simp
  have "scan (\<lambda>b. buildSubTree (Suc 0) b [?R, ?S]) ?R [?R, ?S] = Some (appendChild ?R ?S)"
    using assms sub by (simp del: buildSubTree.simps)
  then have "buildSubTree 2 ?R [?R, ?S] = Some (appendChild ?R ?S)"
    by (simp add: numeral_2_eq_2 del: scan.simps)
  then show ?thesis
    by (simp add: buildTree_def appendChild_def del: buildSubTree.simps)
qed

lemma civil_example_utc: "civil 1634454300 = (2021, 10, 17, 7, 5, 0)"
  by code_simp

lemma civil_example_east: "civil (1634454300 + 8 * 3600) = (2021, 10, 17, 15, 5, 0)"
  by code_simp

lemma eachDT_single:
  assumes "First (ChildrenSel doc [dt]) = [p]"
    and "nodeAt doc p = Some (Node ElementNode ''a'' attrs cs)"
  shows "snd (eachDT doc [dt]) =
           [Bookmark (Text doc [p])
              (case map_of attrs ''href'' of None \<Rightarrow> [] | Some v \<Rightarrow> v) [] []
              (snd (parseTime (case map_of attrs ''add_date'' of None \<Rightarrow> [] | Some v \<Rightarrow> v)))
              (snd (parseTime (case map_of attrs ''last_modified'' of None \<Rightarrow> [] | Some v \<Rightarrow> v)))]"
  using assms by (simp add: Is_def isElement_def linkOf_def AttrOr_def split_beta)

lemma marshal_link_no_addAt:
  assumes "marshal zone (Bookmark t u q [] None m) = Some j"
  shows "''addAt'' \<notin> set (keys j)"
proof -
  from assms obtain fm where fm: "marshalTime zone ''updateAt'' m = Some fm"
    and j: "j = JObject ([(''title'', JString t)]
                 @ (if u = [] then [] else [(''url'', JString u)]) @ fm)"
    by (auto simp: marshalTime_def split: option.splits)
  from marshalTime_keys [OF fm] show ?thesis
    unfolding j by (auto split: if_splits)
qed

text \<open>
  The extractor that goes through the Go map keeps one record for each title: of
  two folders with one title, the later one replaces the earlier one.
\<close>

lemma map_extractor_keeps_last_folder:
  "parseBookmarksMap [''Bar'', ''Work'']
     (bookmarkFile [folderItem [] ''Bar''
        [folderItem [] ''Work'' [linkItem [(''href'', ''http://a'')] ''a''],
         folderItem [] ''Work'' [linkItem [(''href'', ''http://b'')] ''b'']]])
   = ([], [Bookmark ''Bar'' [] [] [] None None,
           Bookmark ''Work'' [] ''Bar'' [Bookmark ''b'' ''http://b'' [] [] None None] None None])"
proof -
  let ?doc = "bookmarkFile [folderItem [] ''Bar''
        [folderItem [] ''Work'' [linkItem [(''href'', ''http://a'')] ''a''],
         folderItem [] ''Work'' [linkItem [(''href'', ''http://b'')] ''b'']]]"
  have hs: "Find ?doc ''h3'' = [[1, 1, 1, 1, 0], [1, 1, 1, 1, 2, 1, 0], [1, 1, 1, 1, 2, 2, 0]]"
    by (simp add: bookmarkFile_def folderItem_def linkItem_def element_def textNode_def
        Find_def isElement_def)
  have fr: "folderOf ?doc [1, 1, 1, 1, 0] = ([], Bookmark ''Bar'' [] [] [] None None)"
    by (simp add: dom_defs parseTime_def upt_rec)
  have fa: "folderOf ?doc [1, 1, 1, 1, 2, 1, 0]
      = ([], Bookmark ''Work'' [] ''Bar'' [Bookmark ''a'' ''http://a'' [] [] None None] None None)"
    by (simp add: dom_defs parseTime_def upt_rec)
  have fb: "folderOf ?doc [1, 1, 1, 1, 2, 2, 0]
      = ([], Bookmark ''Work'' [] ''Bar'' [Bookmark ''b'' ''http://b'' [] [] None None] None None)"
    by (simp add: dom_defs parseTime_def upt_rec)
  have "mapH3 ?doc (Find ?doc ''h3'') []
      = ([], [(''Bar'', Bookmark ''Bar'' [] [] [] None None),
              (''Work'', Bookmark ''Work'' [] ''Bar''
                  [Bookmark ''b'' ''http://b'' [] [] None None] None None)])"
    unfolding hs mapH3.simps fr fa fb by simp
  then show ?thesis
    unfolding parseBookmarksMap_def by (simp add: map_filter_simps)
qed


section \<open>The claims about extraction and serialisation\<close>

text \<open>
  C6: timestamp parsing has no failing branch. The empty attribute gives no instant
  and prints nothing; an attribute that is not empty and not numeric gives no
  instant and prints one line. Extraction goes on: the records returned are one
  for each \<^verbatim>\<open>H3\<close> of the document, in document order, and the links of a folder
  one for each \<^verbatim>\<open>DT\<close> that holds an \<^verbatim>\<open>A\<close>, whatever their timestamps are.
\<close>

theorem parseTime_total_nonfatal:
  "parseTime [] = ([], None) \<and>
   (s \<noteq> [] \<and> \<not> numeric s \<longrightarrow> (\<exists>e. parseTime s = ([TimestampError s e], None))) \<and>
   snd (parseBookmarks doc) = map (\<lambda>h. snd (folderOf doc h)) (Find doc ''h3'') \<and>
   snd (eachDT doc dts) =
     map (\<lambda>d. snd (linkOf doc (First (ChildrenSel doc [d]))))
       (filter (\<lambda>d. Is doc (First (ChildrenSel doc [d])) ''a'') dts)"
proof (intro conjI impI)
  show "parseTime [] = ([], None)" by (simp add: parseTime_def)
next
  assume "s \<noteq> [] \<and> \<not> numeric s"
  then have s: "s \<noteq> []" and "\<not> numeric s" by simp_all
  from ParseInt_not_numeric [OF this(2)] obtain e where "ParseInt s = Inl e" ..
  with s have "parseTime s = ([TimestampError s e], None)" by (simp add: parseTime_def)
  then show "\<exists>e. parseTime s = ([TimestampError s e], None)" ..
next
  show "snd (parseBookmarks doc) = map (\<lambda>h. snd (folderOf doc h)) (Find doc ''h3'')"
    by (simp add: parseBookmarks_def eachH3_records)
next
  show "snd (eachDT doc dts) =
     map (\<lambda>d. snd (linkOf doc (First (ChildrenSel doc [d]))))
       (filter (\<lambda>d. Is doc (First (ChildrenSel doc [d])) ''a'') dts)"
    by (rule eachDT_records)
qed

theorem parseTime_total_nonfatal_witness:
  "parseTime [] = ([], None) \<and> ''12a'' \<noteq> [] \<and> \<not> numeric ''12a'' \<and>
   parseTime ''12a'' = ([TimestampError ''12a'' ErrSyntax], None)"
proof -
  have n: "\<not> numeric ''12a''" by (simp add: numeric_def isDigit_def)
  from parseTime_total_nonfatal [of "''12a''" "bookmarkFile []" "[]"] n
  show ?thesis by (simp add: time_defs)
qed

text \<open>
  C9: the serialised tree has no key but \<^verbatim>\<open>title\<close>, \<^verbatim>\<open>url\<close>, \<^verbatim>\<open>bookmarks\<close>,
  \<^verbatim>\<open>addAt\<close> and \<^verbatim>\<open>updateAt\<close>, in any of its objects, so none is \<^verbatim>\<open>parent\<close>
  or \<^verbatim>\<open>parentTitle\<close>; the serialisation does not depend on the parent titles
  (replacing them all leaves it unchanged); and so it is for what the program
  prints for a document.
\<close>

theorem parent_never_serialised:
  "(marshal zone t = Some j \<longrightarrow>
      set (keys j) \<subseteq> {''title'', ''url'', ''bookmarks'', ''addAt'', ''updateAt''} \<and>
      ''parent'' \<notin> set (keys j) \<and> ''parentTitle'' \<notin> set (keys j)) \<and>
   marshal zone (setParents q t) = marshal zone t \<and>
   (main fuel zone doc = Some (evs, Some j') \<longrightarrow>
      ''parent'' \<notin> set (keys j') \<and> ''parentTitle'' \<notin> set (keys j'))"
proof (intro conjI impI)
  assume "marshal zone t = Some j"
  from marshal_keys [OF this]
  show "set (keys j) \<subseteq> {''title'', ''url'', ''bookmarks'', ''addAt'', ''updateAt''}"
    and "''parent'' \<notin> set (keys j)" and "''parentTitle'' \<notin> set (keys j)"
    by auto
next
  show "marshal zone (setParents q t) = marshal zone t" by (rule marshal_setParents)
next
  assume "main fuel zone doc = Some (evs, Some j')"
  then obtain tr where "marshal zone tr = Some j'"
    by (auto simp: main_def split_beta Let_def split: option.splits)
  from marshal_keys [OF this]
  show "''parent'' \<notin> set (keys j')" and "''parentTitle'' \<notin> set (keys j')"
    by auto
qed

theorem parent_never_serialised_witness:
  "marshal (\<lambda>t. 0) (Bookmark ''Work'' [] ''Bar'' [] None None)
     = Some (JObject [(''title'', JString ''Work'')]) \<and>
   ''parent'' \<notin> set (keys (JObject [(''title'', JString ''Work'')])) \<and>
   main 1 (\<lambda>t. 0) (bookmarkFile [folderItem [] ''Bar'' []])
     = Some ([], Some (JObject [(''title'', JString ''Bar'')]))"
proof -
  have m: "marshal (\<lambda>t. 0) (Bookmark ''Work'' [] ''Bar'' [] None None)
     = Some (JObject [(''title'', JString ''Work'')])"
    by (simp add: marshalTime_def)
  have p: "parseBookmarks (bookmarkFile [folderItem [] ''Bar'' []])
     = ([], [Bookmark ''Bar'' [] [] [] None None])"
    by (simp add: dom_defs parseTime_def upt_rec)
  have r: "main 1 (\<lambda>t. 0) (bookmarkFile [folderItem [] ''Bar'' []])
     = Some ([], Some (JObject [(''title'', JString ''Bar'')]))"
    by (simp add: main_def p buildTree_def marshalTime_def)
  from parent_never_serialised [of "\<lambda>t. 0" "Bookmark ''Work'' [] ''Bar'' [] None None"
      "JObject [(''title'', JString ''Work'')]" "''x''" 1 "bookmarkFile [folderItem [] ''Bar'' []]"
      "[]" "JObject [(''title'', JString ''Bar'')]"] m r
  show ?thesis by simp
qed

text \<open>
  C2, as stated, fails: in the document of the root folder \<^verbatim>\<open>Bar\<close> that holds two
  links and one subfolder, itself holding one link, let the subfolder be titled
  \<^verbatim>\<open>Bar\<close> too. The record of the subfolder then has its own title as parent
  title, and tree building returns with no fuel: the recursion below the root does
  not end, and no tree is produced.
\<close>

theorem nested_same_title_diverges:
  "\<forall>n. snd (buildTree n (snd (parseBookmarks (bookmarkFile
      [folderItem [] ''Bar''
         [linkItem [(''href'', ''http://a'')] ''a'', linkItem [(''href'', ''http://b'')] ''b'',
          folderItem [] ''Bar'' [linkItem [(''href'', ''http://c'')] ''c'']]])))) = None"
proof
  fix n
  let ?R = "Bookmark ''Bar'' [] []
        [Bookmark ''a'' ''http://a'' [] [] None None,
         Bookmark ''b'' ''http://b'' [] [] None None] None None"
  let ?S = "Bookmark ''Bar'' [] ''Bar'' [Bookmark ''c'' ''http://c'' [] [] None None] None None"
  have pb: "snd (parseBookmarks (bookmarkFile
      [folderItem [] ''Bar''
         [linkItem [(''href'', ''http://a'')] ''a'', linkItem [(''href'', ''http://b'')] ''b'',
          folderItem [] ''Bar'' [linkItem [(''href'', ''http://c'')] ''c'']]])) = [?R, ?S]"
    unfolding parseBookmarks_two_folders
    by (simp add: linkOf_def parseTime_def Text_def AttrOr_def textNode_def)
  have "(''Bar'', ''Bar'') \<in> edges [?R, ?S]" by (simp add: edges_def)
  then have "(''Bar'', ''Bar'') \<in> (edges [?R, ?S])\<^sup>+" by (rule r_into_trancl)
  then have "cyclic_from [?R, ?S] (Title ?R)" by (auto simp: cyclic_from_def)
  then have "buildSubTree n ?R [?R, ?S] = None" by (rule buildSubTree_diverges)
  then show "snd (buildTree n (snd (parseBookmarks (bookmarkFile
      [folderItem [] ''Bar''
         [linkItem [(''href'', ''http://a'')] ''a'', linkItem [(''href'', ''http://b'')] ''b'',
          folderItem [] ''Bar'' [linkItem [(''href'', ''http://c'')] ''c'']]])))) = None"
    unfolding pb by (simp add: buildTree_def del: buildSubTree.simps)
qed

text \<open>
  C2, amended: for the document of one root folder titled \<open>rt\<close> that holds two
  links and one subfolder titled \<open>st\<close>, itself holding one link, where \<open>rt\<close>
  and \<open>st\<close> are not empty and differ, extraction followed by tree building
  returns one root node titled \<open>rt\<close> with three children, the two links and
  then the subfolder, and the subfolder has one child. Nothing is printed by tree
  building.
\<close>

theorem well_formed_round_trip:
  assumes "rt \<noteq> []" and "st \<noteq> []" and "st \<noteq> rt"
  shows "\<exists>root sub.
     buildTree 2 (snd (parseBookmarks (bookmarkFile
        [folderItem ra rt [linkItem a1 t1, linkItem a2 t2, folderItem sa st [linkItem a3 t3]]])))
       = ([], Some root) \<and>
     Title root = rt \<and> length (Bookmarks root) = 3 \<and>
     map Title (Bookmarks root) = [t1, t2, st] \<and>
     Bookmarks root ! 2 = sub \<and>
     length (Bookmarks sub) = 1 \<and> map Title (Bookmarks sub) = [t3]"
  unfolding parseBookmarks_two_folders buildTree_root_and_folder [OF assms]
  by (simp add: Title_linkOf Text_def textNode_def)

theorem well_formed_round_trip_witness:
  "buildTree 2 (snd (parseBookmarks (bookmarkFile
      [folderItem [(''add_date'', ''1634454000'')] ''Bar''
         [linkItem [(''href'', ''http://a'')] ''a'', linkItem [(''href'', ''http://b'')] ''b'',
          folderItem [] ''Work'' [linkItem [(''href'', ''http://c'')] ''c'']]])))
   = ([], Some (Bookmark ''Bar'' [] []
        [Bookmark ''a'' ''http://a'' [] [] None None,
         Bookmark ''b'' ''http://b'' [] [] None None,
         Bookmark ''Work'' [] ''Bar'' [Bookmark ''c'' ''http://c'' [] [] None None] None None]
        (Some 1634454000) None))"
proof -
  have pb: "snd (parseBookmarks (bookmarkFile
      [folderItem [(''add_date'', ''1634454000'')] ''Bar''
         [linkItem [(''href'', ''http://a'')] ''a'', linkItem [(''href'', ''http://b'')] ''b'',
          folderItem [] ''Work'' [linkItem [(''href'', ''http://c'')] ''c'']]]))
    = [Bookmark ''Bar'' [] []
        [Bookmark ''a'' ''http://a'' [] [] None None,
         Bookmark ''b'' ''http://b'' [] [] None None] (Some 1634454000) None,
       Bookmark ''Work'' [] ''Bar'' [Bookmark ''c'' ''http://c'' [] [] None None] None None]"
    unfolding parseBookmarks_two_folders
    by (simp add: linkOf_def time_defs Text_def AttrOr_def textNode_def)
  have ne: "''Bar'' \<noteq> []" "''Work'' \<noteq> []" "''Work'' \<noteq> ''Bar''" by simp_all
  from well_formed_round_trip [OF ne,
      of "[(''add_date'', ''1634454000'')]" "[(''href'', ''http://a'')]" "''a''"
         "[(''href'', ''http://b'')]" "''b''" "[]" "[(''href'', ''http://c'')]" "''c''"]
  show ?thesis
    unfolding pb buildTree_root_and_folder [OF ne] by simp
qed

text \<open>
  C7, as stated, fails: the link with \<^verbatim>\<open>add_date="1634454300"\<close> gets the instant
  of 1634454300 seconds after the epoch, which at UTC is 2021-10-17 07:05:00 and
  not 15:05:00.
\<close>

theorem timestamp_not_utc_afternoon:
  "snd (parseBookmarks (bookmarkFile
      [folderItem [] ''Bar''
         [linkItem [(''href'', ''http://a''), (''add_date'', ''1634454300'')] ''a'']]))
     = [Bookmark ''Bar'' [] []
          [Bookmark ''a'' ''http://a'' [] [] (Some 1634454300) None] None None] \<and>
   civil 1634454300 = (2021, 10, 17, 7, 5, 0) \<and>
   civil 1634454300 \<noteq> (2021, 10, 17, 15, 5, 0)"
proof -
  have "snd (parseBookmarks (bookmarkFile
      [folderItem [] ''Bar''
         [linkItem [(''href'', ''http://a''), (''add_date'', ''1634454300'')] ''a'']]))
     = [Bookmark ''Bar'' [] []
          [Bookmark ''a'' ''http://a'' [] [] (Some 1634454300) None] None None]"
    by (simp add: dom_defs time_defs upt_rec split_beta)
  then show ?thesis by (simp add: civil_example_utc)
qed

text \<open>
  C7, amended: a link element whose \<^verbatim>\<open>add_date\<close> is \<^verbatim>\<open>1634454300\<close> gets the
  instant that is 2021-10-17 07:05:00 at UTC, which is 15:05:00 of that day at the
  offset of eight hours east; a link element with no \<^verbatim>\<open>add_date\<close> gets no
  instant, and its serialisation has no \<^verbatim>\<open>addAt\<close> key.
\<close>

theorem timestamp_fidelity:
  assumes "First (ChildrenSel doc [dt]) = [p]"
    and "nodeAt doc p = Some (Node ElementNode ''a'' attrs cs)"
  shows "(map_of attrs ''add_date'' = Some ''1634454300'' \<longrightarrow>
            map AddAt (snd (eachDT doc [dt])) = [Some 1634454300] \<and>
            civil 1634454300 = (2021, 10, 17, 7, 5, 0) \<and>
            civil (1634454300 + 8 * 3600) = (2021, 10, 17, 15, 5, 0)) \<and>
         (map_of attrs ''add_date'' = None \<longrightarrow>
            map AddAt (snd (eachDT doc [dt])) = [None] \<and>
            (\<forall>b j. snd (eachDT doc [dt]) = [b] \<and> marshal zone b = Some j
               \<longrightarrow> ''addAt'' \<notin> set (keys j)))"
proof (intro conjI impI allI)
  assume "map_of attrs ''add_date'' = Some ''1634454300''"
  then show "map AddAt (snd (eachDT doc [dt])) = [Some 1634454300]"
    unfolding eachDT_single [OF assms] by (simp add: time_defs)
next
  assume "map_of attrs ''add_date'' = None"
  then show "map AddAt (snd (eachDT doc [dt])) = [None]"
    unfolding eachDT_single [OF assms] by (simp add: parseTime_def)
next
  fix b j
  assume n: "map_of attrs ''add_date'' = None"
    and e: "snd (eachDT doc [dt]) = [b] \<and> marshal zone b = Some j"
  from e have "marshal zone (Bookmark (Text doc [p])
              (case map_of attrs ''href'' of None \<Rightarrow> [] | Some v \<Rightarrow> v) [] []
              (snd (parseTime (case map_of attrs ''add_date'' of None \<Rightarrow> [] | Some v \<Rightarrow> v)))
              (snd (parseTime (case map_of attrs ''last_modified'' of None \<Rightarrow> [] | Some v \<Rightarrow> v))))
            = Some j"
    unfolding eachDT_single [OF assms] by blast
  with n have "marshal zone (Bookmark (Text doc [p])
              (case map_of attrs ''href'' of None \<Rightarrow> [] | Some v \<Rightarrow> v) [] [] None
              (snd (parseTime (case map_of attrs ''last_modified'' of None \<Rightarrow> [] | Some v \<Rightarrow> v))))
            = Some j"
    by (simp add: parseTime_def del: marshal.simps)
  then show "''addAt'' \<notin> set (keys j)" by (rule marshal_link_no_addAt)
next
  show "civil 1634454300 = (2021, 10, 17, 7, 5, 0)" by (rule civil_example_utc)
next
  show "civil (1634454300 + 8 * 3600) = (2021, 10, 17, 15, 5, 0)" by (rule civil_example_east)
qed

theorem timestamp_fidelity_witness:
  "map AddAt (snd (eachDT
      (bookmarkFile [folderItem [] ''Bar''
         [linkItem [(''href'', ''http://a''), (''add_date'', ''1634454300'')] ''a'',
          linkItem [(''href'', ''http://b'')] ''b'']])
      [[1, 1, 1, 1, 2, 1]])) = [Some 1634454300] \<and>
   snd (eachDT
      (bookmarkFile [folderItem [] ''Bar''
         [linkItem [(''href'', ''http://a''), (''add_date'', ''1634454300'')] ''a'',
          linkItem [(''href'', ''http://b'')] ''b'']])
      [[1, 1, 1, 1, 2, 2]]) = [Bookmark ''b'' ''http://b'' [] [] None None] \<and>
   marshal (\<lambda>t. 0) (Bookmark ''b'' ''http://b'' [] [] None None)
     = Some (JObject [(''title'', JString ''b''), (''url'', JString ''http://b'')]) \<and>
   ''addAt'' \<notin> set (keys (JObject [(''title'', JString ''b''), (''url'', JString ''http://b'')]))"
proof -
  let ?doc = "bookmarkFile [folderItem [] ''Bar''
         [linkItem [(''href'', ''http://a''), (''add_date'', ''1634454300'')] ''a'',
          linkItem [(''href'', ''http://b'')] ''b'']]"
  have f1: "First (ChildrenSel ?doc [[1, 1, 1, 1, 2, 1]]) = [[1, 1, 1, 1, 2, 1, 0]]"
    by (simp add: dom_defs upt_rec)
  have n1: "nodeAt ?doc [1, 1, 1, 1, 2, 1, 0]
      = Some (Node ElementNode ''a'' [(''href'', ''http://a''), (''add_date'', ''1634454300'')]
          [textNode ''a''])"
    by (simp add: dom_defs)
  have f2: "First (ChildrenSel ?doc [[1, 1, 1, 1, 2, 2]]) = [[1, 1, 1, 1, 2, 2, 0]]"
    by (simp add: dom_defs upt_rec)
  have n2: "nodeAt ?doc [1, 1, 1, 1, 2, 2, 0]
      = Some (Node ElementNode ''a'' [(''href'', ''http://b'')] [textNode ''b''])"
    by (simp add: dom_defs)
  have e2: "snd (eachDT ?doc [[1, 1, 1, 1, 2, 2]]) = [Bookmark ''b'' ''http://b'' [] [] None None]"
    unfolding eachDT_single [OF f2 n2] by (simp add: parseTime_def dom_defs)
  have m: "marshal (\<lambda>t. 0) (Bookmark ''b'' ''http://b'' [] [] None None)
     = Some (JObject [(''title'', JString ''b''), (''url'', JString ''http://b'')])"
    by (simp add: marshalTime_def)
  from timestamp_fidelity [OF f1 n1, of "\<lambda>t. 0"]
  have 1: "map AddAt (snd (eachDT ?doc [[1, 1, 1, 1, 2, 1]])) = [Some 1634454300]"
    by simp
  from timestamp_fidelity [OF f2 n2, of "\<lambda>t. 0"] e2 m
  have 2: "''addAt'' \<notin> set (keys (JObject [(''title'', JString ''b''), (''url'', JString ''http://b'')]))"
    by simp
  from 1 e2 m 2 show ?thesis by blast
qed

text \<open>
  C5 holds for the programs that collect the records in a slice, where the output
  is a function of the document. The third program goes through a Go map: for the
  root folder \<^verbatim>\<open>Bar\<close> holding the empty folders \<^verbatim>\<open>A\<close> and \<^verbatim>\<open>B\<close>, two orders
  in which the loop over the map can visit the keys give two different outputs, so
  two runs on the same document need not print the same bytes.
\<close>

theorem map_order_changes_output:
  "rangeOrder
     (snd (mapH3 (bookmarkFile [folderItem [] ''Bar'' [folderItem [] ''A'' [], folderItem [] ''B'' []]])
        (Find (bookmarkFile [folderItem [] ''Bar'' [folderItem [] ''A'' [], folderItem [] ''B'' []]]) ''h3'') []))
     [''Bar'', ''A'', ''B''] \<and>
   rangeOrder
     (snd (mapH3 (bookmarkFile [folderItem [] ''Bar'' [folderItem [] ''A'' [], folderItem [] ''B'' []]])
        (Find (bookmarkFile [folderItem [] ''Bar'' [folderItem [] ''A'' [], folderItem [] ''B'' []]]) ''h3'') []))
     [''Bar'', ''B'', ''A''] \<and>
   mainMap [''Bar'', ''A'', ''B''] 2 (\<lambda>t. 0)
     (bookmarkFile [folderItem [] ''Bar'' [folderItem [] ''A'' [], folderItem [] ''B'' []]])
     = Some ([], Some (JObject [(''title'', JString ''Bar''),
          (''bookmarks'', JArray [JObject [(''title'', JString ''A'')],
                                  JObject [(''title'', JString ''B'')]])])) \<and>
   mainMap [''Bar'', ''B'', ''A''] 2 (\<lambda>t. 0)
     (bookmarkFile [folderItem [] ''Bar'' [folderItem [] ''A'' [], folderItem [] ''B'' []]])
     = Some ([], Some (JObject [(''title'', JString ''Bar''),
          (''bookmarks'', JArray [JObject [(''title'', JString ''B'')],
                                  JObject [(''title'', JString ''A'')]])])) \<and>
   mainMap [''Bar'', ''A'', ''B''] 2 (\<lambda>t. 0)
     (bookmarkFile [folderItem [] ''Bar'' [folderItem [] ''A'' [], folderItem [] ''B'' []]])
   \<noteq> mainMap [''Bar'', ''B'', ''A''] 2 (\<lambda>t. 0)
     (bookmarkFile [folderItem [] ''Bar'' [folderItem [] ''A'' [], folderItem [] ''B'' []]])"
proof -
  let ?doc = "bookmarkFile [folderItem [] ''Bar'' [folderItem [] ''A'' [], folderItem [] ''B'' []]]"
  let ?R = "Bookmark ''Bar'' [] [] [] None None"
  let ?A = "Bookmark ''A'' [] ''Bar'' [] None None"
  let ?B = "Bookmark ''B'' [] ''Bar'' [] None None"
  have hs: "Find ?doc ''h3'' = [[1, 1, 1, 1, 0], [1, 1, 1, 1, 2, 1, 0], [1, 1, 1, 1, 2, 2, 0]]"
    by (simp add: bookmarkFile_def folderItem_def element_def textNode_def Find_def isElement_def)
  have fr: "folderOf ?doc [1, 1, 1, 1, 0] = ([], ?R)"
    by (simp add: dom_defs parseTime_def upt_rec)
  have fa: "folderOf ?doc [1, 1, 1, 1, 2, 1, 0] = ([], ?A)"
    by (simp add: dom_defs parseTime_def upt_rec)
  have fb: "folderOf ?doc [1, 1, 1, 1, 2, 2, 0] = ([], ?B)"
    by (simp add: dom_defs parseTime_def upt_rec)
  have m: "mapH3 ?doc (Find ?doc ''h3'') [] = ([], [(''Bar'', ?R), (''A'', ?A), (''B'', ?B)])"
    unfolding hs mapH3.simps fr fa fb by simp
  have o1: "rangeOrder (snd (mapH3 ?doc (Find ?doc ''h3'') [])) [''Bar'', ''A'', ''B'']"
    unfolding m by (simp add: rangeOrder_def)
  have o2: "rangeOrder (snd (mapH3 ?doc (Find ?doc ''h3'') [])) [''Bar'', ''B'', ''A'']"
    unfolding m by (auto simp: rangeOrder_def)
  have p1: "parseBookmarksMap [''Bar'', ''A'', ''B''] ?doc = ([], [?R, ?A, ?B])"
    unfolding parseBookmarksMap_def m by (simp add: map_filter_simps)
  have p2: "parseBookmarksMap [''Bar'', ''B'', ''A''] ?doc = ([], [?R, ?B, ?A])"
    unfolding parseBookmarksMap_def m by (simp add: map_filter_simps)
  have b1: "buildTree 2 [?R, ?A, ?B] = ([], Some (Bookmark ''Bar'' [] [] [?A, ?B] None None))"
    by (simp add: buildTree_def numeral_2_eq_2 appendChild_def)
  have b2: "buildTree 2 [?R, ?B, ?A] = ([], Some (Bookmark ''Bar'' [] [] [?B, ?A] None None))"
    by (simp add: buildTree_def numeral_2_eq_2 appendChild_def)
  have r1: "mainMap [''Bar'', ''A'', ''B''] 2 (\<lambda>t. 0) ?doc
     = Some ([], Some (JObject [(''title'', JString ''Bar''),
          (''bookmarks'', JArray [JObject [(''title'', JString ''A'')],
                                  JObject [(''title'', JString ''B'')]])]))"
    unfolding mainMap_def p1 by (simp add: b1 marshalTime_def del: buildSubTree.simps)
  have r2: "mainMap [''Bar'', ''B'', ''A''] 2 (\<lambda>t. 0) ?doc
     = Some ([], Some (JObject [(''title'', JString ''Bar''),
          (''bookmarks'', JArray [JObject [(''title'', JString ''B'')],
                                  JObject [(''title'', JString ''A'')]])]))"
    unfolding mainMap_def p2 by (simp add: b2 marshalTime_def del: buildSubTree.simps)
  have ne: "mainMap [''Bar'', ''A'', ''B''] 2 (\<lambda>t. 0) ?doc \<noteq> mainMap [''Bar'', ''B'', ''A''] 2 (\<lambda>t. 0) ?doc"
    unfolding r1 r2 by simp
  from o1 o2 r1 r2 ne show ?thesis by blast
qed

end
